theory Spec2Isabelle
  imports Complex_Main "HOL-Library.Char_ord" "HOL-Library.List_Lexorder" "HOL-Library.Sublist"
    "HOL-Library.Code_Target_Nat"
begin

section \<open>Python strings\<close>

text \<open>
  A Python \<open>str\<close> is modelled as a \<^typ>\<open>string\<close>, one \<^typ>\<open>char\<close> per code point, so
  the model covers the code points below 256 (Latin-1). The letter \<open>e\<close> with grave accent of
  the Catalan ordinals is \<open>CHR 0xE8\<close>, the line feed is \<open>CHR 0x0A\<close>.
\<close>

definition startswith :: "string \<Rightarrow> string \<Rightarrow> bool" where
  "startswith s p = prefix p s"

definition endswith :: "string \<Rightarrow> string \<Rightarrow> bool" where
  "endswith s p = suffix p s"

text \<open>The code points below 256 for which \<open>str.isspace()\<close> holds; \<open>str.strip()\<close> removes
  them at both ends.\<close>

definition py_isspace :: "char \<Rightarrow> bool" where
  "py_isspace c = (c \<in> set [CHR 0x09, CHR 0x0A, CHR 0x0B, CHR 0x0C, CHR 0x0D,
                              CHR 0x1C, CHR 0x1D, CHR 0x1E, CHR 0x1F, CHR 0x20,
                              CHR 0x85, CHR 0xA0])"

definition strip :: "string \<Rightarrow> string" where
  "strip s = rev (dropWhile py_isspace (rev (dropWhile py_isspace s)))"

text \<open>The decimal digits below code point 256: what \<open>\d\<close> matches and what \<open>int\<close> accepts
  as a one-character string.\<close>

definition is_digit :: "char \<Rightarrow> bool" where
  "is_digit c = (c \<in> set ''0123456789'')"

definition int_of_char :: "char \<Rightarrow> nat option" where
  "int_of_char c = map_of [(CHR ''0'', 0), (CHR ''1'', 1), (CHR ''2'', 2), (CHR ''3'', 3),
                           (CHR ''4'', 4), (CHR ''5'', 5), (CHR ''6'', 6), (CHR ''7'', 7),
                           (CHR ''8'', 8), (CHR ''9'', 9)] c"

fun str_nat :: "nat \<Rightarrow> string" where
  "str_nat n = (if n < 10 then [''0123456789'' ! n]
                else str_nat (n div 10) @ [''0123456789'' ! (n mod 10)])"

declare str_nat.simps [simp del]


section \<open>CorpusScanner: identifier and grade level\<close>

text \<open>
  \<open>re.search(r'_(\d+)_NOR\.txt$', filename)\<close>. \<open>match_here\<close> is the match anchored at the
  first character of its argument: an underscore, the longest run of digits (one at
  least), then \<open>_NOR.txt\<close> up to the end. The run must be the longest one, since the
  character after the group has to be an underscore; \<open>$\<close> (without \<open>re.MULTILINE\<close>)
  matches at the end of the string and also just before a line feed that ends the string.
  \<open>re_search\<close> tries every start position from the left.
\<close>

definition match_here :: "string \<Rightarrow> string option" where
  "match_here s =
     (case s of
        [] \<Rightarrow> None
      | c # r \<Rightarrow>
          if c \<noteq> CHR ''_'' then None
          else let ds = takeWhile is_digit r; rest = dropWhile is_digit r
               in if ds \<noteq> [] \<and> (rest = ''_NOR.txt'' \<or> rest = ''_NOR.txt\<newline>'')
                  then Some ds else None)"

fun re_search :: "string \<Rightarrow> string option" where
  "re_search [] = None"
| "re_search (c # cs) =
     (case match_here (c # cs) of Some d \<Rightarrow> Some d | None \<Rightarrow> re_search cs)"

definition extract_id_from_filename :: "string \<Rightarrow> string option" where
  "extract_id_from_filename filename = re_search filename"

text \<open>
  \<open>extract_curso_from_id\<close>: the guard on the length, \<open>int(text_id[2])\<close> with its
  \<open>ValueError\<close> caught, and \<open>curso_ordinals.get(curso_num, f'{curso_num}\<dots> ESO')\<close>.
\<close>

definition curso_ordinals :: "(nat \<times> string) list" where
  "curso_ordinals =
     [(1, ''1r ESO''), (2, ''2n ESO''), (3, ''3r ESO''), (4, ''4t ESO''),
      (5, ''5'' @ [CHR 0xE8] @ '' ESO''), (6, ''6'' @ [CHR 0xE8] @ '' ESO'')]"

definition extract_curso_from_id :: "string \<Rightarrow> string" where
  "extract_curso_from_id text_id =
     (if text_id = [] \<or> length text_id < 3 then ''4t ESO''
      else case int_of_char (text_id ! 2) of
             None \<Rightarrow> ''4t ESO''
           | Some curso_num \<Rightarrow>
               (case map_of curso_ordinals curso_num of
                  Some label \<Rightarrow> label
                | None \<Rightarrow> str_nat curso_num @ [CHR 0xE8] @ '' ESO''))"


section \<open>JSON values and the Python operations applied to them\<close>

text \<open>
  What \<open>json.loads\<close> returns: \<open>None\<close>, \<open>bool\<close>, \<open>int\<close>, \<open>float\<close>, \<open>str\<close>, \<open>list\<close> and
  \<open>dict\<close> (keys distinct, in insertion order). \<open>JNull\<close> is also the \<open>None\<close> that
  \<open>dict.get\<close> returns for a missing key.
\<close>

datatype pyfloat = FFinite rat | FPosInf | FNegInf | FNaN

datatype json =
    JNull
  | JBool bool
  | JInt int
  | JFloat pyfloat
  | JStr string
  | JArr "json list"
  | JObj "(string \<times> json) list"

datatype pyexn =
    AttributeError | TypeError | ValueError | KeyError | OverflowError | RecursionError

text \<open>\<open>x.get(key, default)\<close>: only a \<open>dict\<close> has the method.\<close>

definition dict_get :: "json \<Rightarrow> string \<Rightarrow> json \<Rightarrow> pyexn + json" where
  "dict_get x k dflt =
     (case x of
        JObj kvs \<Rightarrow> Inr (case map_of kvs k of Some v \<Rightarrow> v | None \<Rightarrow> dflt)
      | _ \<Rightarrow> Inl AttributeError)"

text \<open>Truth value of \<open>if x:\<close>.\<close>

fun truthy :: "json \<Rightarrow> bool" where
  "truthy JNull = False"
| "truthy (JBool b) = b"
| "truthy (JInt n) = (n \<noteq> 0)"
| "truthy (JFloat f) = (f \<noteq> FFinite 0)"
| "truthy (JStr s) = (s \<noteq> [])"
| "truthy (JArr xs) = (xs \<noteq> [])"
| "truthy (JObj kvs) = (kvs \<noteq> [])"

text \<open>What \<open>list.extend(x)\<close> appends: the elements of a list, the keys of a dict, the
  characters of a string; anything else is not iterable.\<close>

fun py_iter :: "json \<Rightarrow> pyexn + json list" where
  "py_iter (JArr xs) = Inr xs"
| "py_iter (JObj kvs) = Inr (map (\<lambda>kv. JStr (fst kv)) kvs)"
| "py_iter (JStr s) = Inr (map (\<lambda>c. JStr [c]) s)"
| "py_iter _ = Inl TypeError"

text \<open>The format specification \<open>:.1f\<close>: numbers and booleans are formatted, a string
  raises \<open>ValueError\<close>, \<open>None\<close>, lists and dicts raise \<open>TypeError\<close>, and an \<open>int\<close> that does
  not fit a double raises \<open>OverflowError\<close>.\<close>

definition double_limit :: int where
  "double_limit = 2 ^ 1024 - 2 ^ 970"

fun format_1f :: "json \<Rightarrow> pyexn option" where
  "format_1f (JInt n) = (if \<bar>n\<bar> < double_limit then None else Some OverflowError)"
| "format_1f (JFloat f) = None"
| "format_1f (JBool b) = None"
| "format_1f (JStr s) = Some ValueError"
| "format_1f _ = Some TypeError"


section \<open>StreamFrameParser and the streaming loop of \<open>stream_results\<close>\<close>

text \<open>\<open>'\n\n' in buffer\<close> together with \<open>buffer.split('\n\n', 1)\<close>: \<open>None\<close> when the buffer
  holds no blank line, else the text before the first one and the text after it.\<close>

fun split_blank :: "string \<Rightarrow> (string \<times> string) option" where
  "split_blank (a # b # cs) =
     (if a = CHR 0x0A \<and> b = CHR 0x0A then Some ([], cs)
      else case split_blank (b # cs) of
             None \<Rightarrow> None
           | Some (x, y) \<Rightarrow> Some (a # x, y))"
| "split_blank [a] = None"
| "split_blank [] = None"

text \<open>\<open>s.split('\n')\<close>; the result is never empty, so the first branch of the
  \<open>case\<close> is never taken.\<close>

fun split_nl :: "string \<Rightarrow> string list" where
  "split_nl [] = [Nil]"
| "split_nl (c # cs) =
     (if c = CHR 0x0A then [] # split_nl cs
      else case split_nl cs of
             [] \<Rightarrow> [c] # []
           | l # ls \<Rightarrow> (c # l) # ls)"

text \<open>\<open>event_data\<close>, a dict with at most the keys \<open>event\<close> and \<open>data\<close>.\<close>

record event_data =
  ed_event :: "string option"
  ed_data :: "json option"

definition no_event_data :: event_data where
  "no_event_data = \<lparr>ed_event = None, ed_data = None\<rparr>"

text \<open>
  \<open>json.loads\<close> is the library's decoder, a parameter \<open>loads\<close> of the model. It returns
  a value, or raises \<open>json.JSONDecodeError\<close>, or raises another exception
  (\<open>RecursionError\<close> for a text nested too deeply, \<open>ValueError\<close> for an integer with too
  many digits).
\<close>

datatype decoded = Decoded json | JSONDecodeError | DecoderRaises pyexn

text \<open>
  The loop over the lines of a frame. \<open>except json.JSONDecodeError: pass\<close> swallows the
  first kind of failure only; any other exception of the decoder leaves the loop and
  \<open>stream_results\<close>.
\<close>

fun parse_lines ::
  "(string \<Rightarrow> decoded) \<Rightarrow> string list \<Rightarrow> event_data \<Rightarrow> pyexn + event_data" where
  "parse_lines loads [] ed = Inr ed"
| "parse_lines loads (line # lines) ed =
     (if startswith line ''event:''
      then parse_lines loads lines (ed\<lparr>ed_event := Some (strip (drop 6 line))\<rparr>)
      else if startswith line ''data:'' then
        (case loads (strip (drop 5 line)) of
           Decoded v \<Rightarrow> parse_lines loads lines (ed\<lparr>ed_data := Some v\<rparr>)
         | JSONDecodeError \<Rightarrow> parse_lines loads lines ed
         | DecoderRaises e \<Rightarrow> Inl e)
      else parse_lines loads lines ed)"

definition parse_frame :: "(string \<Rightarrow> decoded) \<Rightarrow> string \<Rightarrow> pyexn + event_data" where
  "parse_frame loads event_text = parse_lines loads (split_nl (strip event_text)) no_event_data"

text \<open>What \<open>stream_results\<close> prints.\<close>

datatype msg =
    Progress json json json
  | JobCompleted
  | ErrorMessage json
  | ErrorStreaming

text \<open>How the handling of one frame leaves the \<open>while\<close> loop: it goes on, it reaches a
  \<open>break\<close>, or an exception that \<open>stream_results\<close> does not catch is raised.\<close>

datatype flow = Next "json list" "msg list" | Break "json list" "msg list" | Raise pyexn

definition print_progress :: "json \<Rightarrow> pyexn + msg list" where
  "print_progress progress =
     (if \<not> truthy progress then Inr []
      else (case dict_get progress ''completed'' (JInt 0) of
              Inl e \<Rightarrow> Inl e
            | Inr c \<Rightarrow>
               (case dict_get progress ''total'' (JInt 0) of
                  Inl e \<Rightarrow> Inl e
                | Inr t \<Rightarrow>
                   (case dict_get progress ''percentage'' (JInt 0) of
                      Inl e \<Rightarrow> Inl e
                    | Inr p \<Rightarrow>
                       (case format_1f p of
                          Some e \<Rightarrow> Inl e
                        | None \<Rightarrow> Inr [Progress c t p])))))"

text \<open>The \<open>if\<close>/\<open>elif\<close> chain on the event type, in the source's order of evaluation.\<close>

definition handle_batch_complete :: "json \<Rightarrow> json list \<Rightarrow> msg list \<Rightarrow> flow" where
  "handle_batch_complete payload results out =
     (case dict_get payload ''results'' (JArr []) of
        Inl e \<Rightarrow> Raise e
      | Inr batch_results \<Rightarrow>
         (case py_iter batch_results of
            Inl e \<Rightarrow> Raise e
          | Inr entries \<Rightarrow>
             (case dict_get payload ''progress'' (JObj []) of
                Inl e \<Rightarrow> Raise e
              | Inr progress \<Rightarrow>
                 (case print_progress progress of
                    Inl e \<Rightarrow> Raise e
                  | Inr printed \<Rightarrow> Next (results @ entries) (out @ printed)))))"

definition handle_event :: "event_data \<Rightarrow> json list \<Rightarrow> msg list \<Rightarrow> flow" where
  "handle_event ed results out =
     (let payload = (case ed_data ed of Some v \<Rightarrow> v | None \<Rightarrow> JObj [])
      in if ed_event ed = Some ''batch_complete'' then handle_batch_complete payload results out
         else if ed_event ed = Some ''complete'' then Break results (out @ [JobCompleted])
         else if ed_event ed = Some ''error'' then
           (case dict_get payload ''message'' (JStr ''Unknown error'') of
              Inl e \<Rightarrow> Raise e
            | Inr error_msg \<Rightarrow> Break results (out @ [ErrorMessage error_msg]))
         else Next results out)"

lemma split_blank_shorter: "split_blank s = Some (x, y) \<Longrightarrow> length y < length s"
  by (induction s arbitrary: x rule: split_blank.induct)
     (auto split: if_splits option.splits)

text \<open>
  The \<open>while '\n\n' in buffer\<close> loop for one chunk: the state is the buffer, the results and
  the printed lines. A \<open>break\<close> leaves the loop with the rest of the buffer kept.
\<close>

function process_buffer ::
  "(string \<Rightarrow> decoded) \<Rightarrow> string \<Rightarrow> json list \<Rightarrow> msg list
     \<Rightarrow> pyexn + (string \<times> json list \<times> msg list)" where
  "process_buffer loads buffer results out =
     (case split_blank buffer of
        None \<Rightarrow> Inr (buffer, results, out)
      | Some (event_text, rest) \<Rightarrow>
          (case parse_frame loads event_text of
             Inl e \<Rightarrow> Inl e
           | Inr event_data \<Rightarrow>
               (case handle_event event_data results out of
                  Raise e \<Rightarrow> Inl e
                | Break results' out' \<Rightarrow> Inr (rest, results', out')
                | Next results' out' \<Rightarrow> process_buffer loads rest results' out')))"
  by pat_completeness auto
termination
  by (relation "measure (\<lambda>(loads, buffer, results, out). length buffer)")
     (auto dest: split_blank_shorter)

declare process_buffer.simps [simp del]

text \<open>The \<open>for chunk in response.iter_content(...)\<close> loop; an empty chunk is skipped.\<close>

fun consume ::
  "(string \<Rightarrow> decoded) \<Rightarrow> string list \<Rightarrow> string \<Rightarrow> json list \<Rightarrow> msg list
     \<Rightarrow> pyexn + (string \<times> json list \<times> msg list)" where
  "consume loads [] buffer results out = Inr (buffer, results, out)"
| "consume loads (chunk # chunks) buffer results out =
     (if chunk = [] then consume loads chunks buffer results out
      else case process_buffer loads (buffer @ chunk) results out of
             Inl e \<Rightarrow> Inl e
           | Inr (buffer', results', out') \<Rightarrow> consume loads chunks buffer' results' out')"

text \<open>
  What the service does with \<open>GET /stream/{job_id}\<close>: the request fails (connection,
  timeout or an error status raised by \<open>raise_for_status\<close>), or the response delivers
  chunks of text and then ends, either normally or with a
  \<open>requests.exceptions.RequestException\<close> (transport failure, read timeout).
\<close>

datatype stream_end = EndOfStream | TransportFailure

datatype http_stream = RequestFailed | Chunks "string list" stream_end

text \<open>\<open>stream_results\<close>: the returned list and the printed lines, or the exception that
  escapes.\<close>

definition stream_results ::
  "(string \<Rightarrow> decoded) \<Rightarrow> http_stream \<Rightarrow> pyexn + (json list \<times> msg list)" where
  "stream_results loads response =
     (case response of
        RequestFailed \<Rightarrow> Inr ([], [ErrorStreaming])
      | Chunks chunks ending \<Rightarrow>
          (case consume loads chunks [] [] [] of
             Inl e \<Rightarrow> Inl e
           | Inr (buffer, results, out) \<Rightarrow>
               Inr (results, out @ (if ending = TransportFailure then [ErrorStreaming] else []))))"


section \<open>PromptRepository: the prompt table\<close>

text \<open>
  The value of a cell of the table that \<open>pd.read_csv\<close> returns: a \<open>str\<close>, or the scalar
  of a numeric or boolean column (\<open>numpy.int64\<close>, \<open>numpy.float64\<close>, \<open>numpy.bool_\<close>). A
  float is given by the text that \<open>str\<close> gives for it; the empty cell is the float
  \<open>nan\<close>. \<open>astype_str\<close> is the text that \<open>astype(str)\<close> gives for a cell.
\<close>

datatype raw = RStr string | RInt int | RFloat string | RBool bool

definition str_int :: "int \<Rightarrow> string" where
  "str_int n = (if n < 0 then ''-'' @ str_nat (nat (- n)) else str_nat (nat n))"

fun astype_str :: "raw \<Rightarrow> string" where
  "astype_str (RStr s) = s"
| "astype_str (RInt n) = str_int n"
| "astype_str (RFloat r) = r"
| "astype_str (RBool b) = (if b then ''True'' else ''False'')"

text \<open>
  The \<open>DataFrame\<close>: the column names (distinct, as \<open>read_csv\<close> makes them) and the rows,
  each row giving its cells in the order of the columns. A row read with \<open>iloc\<close> keeps
  the values of its cells, as it does whenever some column of the table holds text. (A
  table all of whose columns are numeric, for which \<open>iloc\<close> converts the cells of a row to
  one common type, is outside the model.)
\<close>

record dataframe =
  df_columns :: "string list"
  df_rows :: "raw list list"

definition empty_dataframe :: dataframe where
  "empty_dataframe = \<lparr>df_columns = [], df_rows = []\<rparr>"

text \<open>\<open>df.empty\<close>: one of the two axes has length 0.\<close>

definition df_empty :: "dataframe \<Rightarrow> bool" where
  "df_empty df = (df_columns df = [] \<or> df_rows df = [])"

text \<open>\<open>df.rename(columns={old: new}, inplace=True)\<close>.\<close>

definition rename_column :: "string \<Rightarrow> string \<Rightarrow> dataframe \<Rightarrow> dataframe" where
  "rename_column old new df =
     df\<lparr>df_columns := map (\<lambda>c. if c = old then new else c) (df_columns df)\<rparr>"

text \<open>\<open>load_consignas_csv\<close>; the argument is \<open>None\<close> when \<open>consignas.csv\<close> does not exist.\<close>

definition load_consignas_csv :: "dataframe option \<Rightarrow> dataframe" where
  "load_consignas_csv csv =
     (case csv of
        None \<Rightarrow> empty_dataframe
      | Some df \<Rightarrow>
          (let df1 = (if ''File ID'' \<in> set (df_columns df)
                      then rename_column ''File ID'' ''FileID'' df else df);
               df2 = (if ''TEXTpost2'' \<in> set (df_columns df1)
                      then rename_column ''TEXTpost2'' ''Consigna'' df1 else df1)
           in df2))"

text \<open>A \<open>DataFrame\<close> is rectangular: every row has one cell for each column.\<close>

definition rectangular :: "dataframe \<Rightarrow> bool" where
  "rectangular df = list_all (\<lambda>row. length row = length (df_columns df)) (df_rows df)"

text \<open>The name of a column after the two renamings of \<open>load_consignas_csv\<close>.\<close>

definition canonical_name :: "string \<Rightarrow> string" where
  "canonical_name c =
     (if c = ''File ID'' then ''FileID'' else if c = ''TEXTpost2'' then ''Consigna'' else c)"

text \<open>The cells of a row in the columns of a given name.\<close>

definition row_cells :: "dataframe \<Rightarrow> raw list \<Rightarrow> string \<Rightarrow> raw list" where
  "row_cells df row name = map snd (filter (\<lambda>cv. fst cv = name) (zip (df_columns df) row))"

text \<open>
  A value taken from a row: a scalar when one column has the name, a \<open>Series\<close> when the
  renaming has left two columns named \<open>Consigna\<close>.
\<close>

datatype cell = Scalar raw | Series "raw list"

text \<open>
  The lookup of \<open>process_folder\<close>:
  \<open>consignas_df[consignas_df['ID'].astype(str) == text_id]\<close>, then \<open>"N/A"\<close> when no row
  is left and \<open>consigna_row.iloc[0]['Consigna']\<close>, the value of the cell as it is,
  otherwise. A missing column raises \<open>KeyError\<close>.
\<close>

definition lookup_consigna :: "dataframe \<Rightarrow> string \<Rightarrow> pyexn + cell" where
  "lookup_consigna df text_id =
     (if ''ID'' \<notin> set (df_columns df) then Inl KeyError
      else case filter (\<lambda>row. map astype_str (row_cells df row ''ID'') = [text_id])
                  (df_rows df) of
             [] \<Rightarrow> Inr (Scalar (RStr ''N/A''))
           | row # _ \<Rightarrow>
               (case row_cells df row ''Consigna'' of
                  [] \<Rightarrow> Inl KeyError
                | [v] \<Rightarrow> Inr (Scalar v)
                | vs \<Rightarrow> Inr (Series vs)))"


section \<open>CorpusScanner: the files of a folder\<close>

text \<open>
  A directory entry: the file name and the text of the file, \<open>None\<close> when reading it
  raises. \<open>folder_path.glob('*_NOR.txt')\<close> keeps the names that end in \<open>_NOR.txt\<close>, and
  \<open>sorted\<close> orders them by name.
\<close>

type_synonym dir_entry = "string \<times> string option"

definition get_nor_files :: "dir_entry list \<Rightarrow> dir_entry list" where
  "get_nor_files folder = sort_key fst (filter (\<lambda>e. endswith (fst e) ''_NOR.txt'') folder)"

definition read_text_file :: "string option \<Rightarrow> string" where
  "read_text_file content = (case content of None \<Rightarrow> [] | Some t \<Rightarrow> strip t)"


section \<open>BatchBuilder\<close>

text \<open>
  \<open>for i in range(0, len(nor_files), batch_size): batch_files = nor_files[i:i+batch_size]\<close>.
  \<open>range\<close> raises \<open>ValueError\<close> for the step 0 and is empty for a negative step;
  \<open>slices_from\<close> is the loop for a positive step (its test \<open>0 < b\<close> is never false when
  called from \<open>batch_slices\<close>).
\<close>

function slices_from :: "nat \<Rightarrow> nat \<Rightarrow> 'a list \<Rightarrow> 'a list list" where
  "slices_from i b xs =
     (if 0 < b \<and> i < length xs then take b (drop i xs) # slices_from (i + b) b xs else [])"
  by pat_completeness auto
termination
  by (relation "measure (\<lambda>(i, b, xs). length xs - i)") auto

declare slices_from.simps [simp del]

definition batch_slices :: "int \<Rightarrow> 'a list \<Rightarrow> pyexn + 'a list list" where
  "batch_slices batch_size xs =
     (if batch_size = 0 then Inl ValueError
      else if batch_size < 0 then Inr []
      else Inr (slices_from 0 (nat batch_size) xs))"

record batch_item =
  id_alumno :: string
  curso :: string
  consigna :: cell
  respuesta :: string

record file_meta =
  meta_id :: string
  meta_filename :: string
  meta_consigna :: cell
  meta_curso :: string

text \<open>
  The loop over the files of one batch, with \<open>batch_items\<close> and \<open>file_metadata\<close> as
  accumulators: a name without identifier and an empty text are skipped (\<open>continue\<close>).
\<close>

fun prepare_batch ::
  "dataframe \<Rightarrow> dir_entry list \<Rightarrow> batch_item list \<Rightarrow> file_meta list
     \<Rightarrow> pyexn + (batch_item list \<times> file_meta list)" where
  "prepare_batch df [] batch_items file_metadata = Inr (batch_items, file_metadata)"
| "prepare_batch df (file # files) batch_items file_metadata =
     (case extract_id_from_filename (fst file) of
        None \<Rightarrow> prepare_batch df files batch_items file_metadata
      | Some text_id \<Rightarrow>
          (let grade = extract_curso_from_id text_id;
               answer = read_text_file (snd file)
           in if answer = [] then prepare_batch df files batch_items file_metadata
              else (case lookup_consigna df text_id of
                      Inl e \<Rightarrow> Inl e
                    | Inr prompt \<Rightarrow>
                        prepare_batch df files
                          (batch_items @ [\<lparr>id_alumno = text_id, curso = grade,
                                            consigna = prompt, respuesta = answer\<rparr>])
                          (file_metadata @ [\<lparr>meta_id = text_id, meta_filename = fst file,
                                              meta_consigna = prompt, meta_curso = grade\<rparr>]))))"


section \<open>EvaluationClient\<close>

text \<open>
  \<open>requests.post(url, json=payload)\<close> encodes the items as JSON before anything is sent.
  The identifier, the grade level and the answer are strings; the prompt is a value of
  the table. A string and a finite float are encoded; \<open>nan\<close> and the infinities raise
  \<open>ValueError\<close>, which \<open>requests\<close> turns into a \<open>RequestException\<close>; a \<open>numpy.int64\<close>, a
  \<open>numpy.bool_\<close> and a \<open>Series\<close> raise \<open>TypeError\<close>. The first item that cannot be
  encoded decides.
\<close>

fun encode_failure_cell :: "cell \<Rightarrow> pyexn option" where
  "encode_failure_cell (Scalar (RStr s)) = None"
| "encode_failure_cell (Scalar (RFloat r)) =
     (if r = ''nan'' \<or> r = ''inf'' \<or> r = ''-inf'' then Some ValueError else None)"
| "encode_failure_cell (Scalar (RInt n)) = Some TypeError"
| "encode_failure_cell (Scalar (RBool b)) = Some TypeError"
| "encode_failure_cell (Series vs) = Some TypeError"

fun encode_failure :: "batch_item list \<Rightarrow> pyexn option" where
  "encode_failure [] = None"
| "encode_failure (item # items) =
     (case encode_failure_cell (consigna item) of
        Some e \<Rightarrow> Some e
      | None \<Rightarrow> encode_failure items)"

text \<open>
  What the service answers to the submission of a batch: \<open>job_info\<close> is the decoded body
  of the answer to \<open>POST /evaluate\<close>, \<open>None\<close> when the request raises a
  \<open>RequestException\<close>; \<open>job_stream\<close> is what \<open>GET /stream/{job_id}\<close> then delivers.
\<close>

record api_reply =
  job_info :: "json option"
  job_stream :: http_stream

text \<open>\<open>submit_evaluation_job\<close>: \<open>except requests.exceptions.RequestException\<close> returns
  \<open>None\<close>; a \<open>TypeError\<close> of the encoding is not caught.\<close>

definition submit_evaluation_job :: "api_reply \<Rightarrow> batch_item list \<Rightarrow> pyexn + json option" where
  "submit_evaluation_job reply items =
     (case encode_failure items of
        None \<Rightarrow> Inr (job_info reply)
      | Some e \<Rightarrow> if e = ValueError then Inr None else Inl e)"

text \<open>\<open>evaluate_texts\<close>: no job, or a job information that is false (\<open>if not job_info\<close>),
  gives no results; \<open>job_info.get\<close> needs a dict.\<close>

definition evaluate_texts ::
  "(string \<Rightarrow> decoded) \<Rightarrow> api_reply \<Rightarrow> batch_item list \<Rightarrow> pyexn + json list" where
  "evaluate_texts loads reply items =
     (case submit_evaluation_job reply items of
        Inl e \<Rightarrow> Inl e
      | Inr None \<Rightarrow> Inr []
      | Inr (Some info) \<Rightarrow>
          if \<not> truthy info then Inr []
          else (case dict_get info ''job_id'' JNull of
                  Inl e \<Rightarrow> Inl e
                | Inr job_id \<Rightarrow>
                    (case stream_results loads (job_stream reply) of
                       Inl e \<Rightarrow> Inl e
                     | Inr (results, out) \<Rightarrow> Inr results)))"


section \<open>ResultReconciler and \<open>process_folder\<close>\<close>

record result_row =
  row_folder :: string
  row_id :: json
  row_filename :: string
  row_curso :: string
  row_consigna :: cell
  row_nota :: json
  row_feedback :: json

text \<open>\<open>result.get(k)\<close> for a result entry that is a dict.\<close>

definition entry_field :: "json \<Rightarrow> string \<Rightarrow> json" where
  "entry_field result k = (case dict_get result k JNull of Inr v \<Rightarrow> v | Inl e \<Rightarrow> JNull)"

text \<open>\<open>next((m for m in file_metadata if m['id'] == id_alumno), None)\<close>.\<close>

definition find_metadata :: "file_meta list \<Rightarrow> json \<Rightarrow> file_meta option" where
  "find_metadata file_metadata ident = find (\<lambda>m. JStr (meta_id m) = ident) file_metadata"

text \<open>The loop \<open>for result in results\<close>, appending to \<open>all_results\<close>; \<open>result.get\<close> raises
  \<open>AttributeError\<close> for a result that is not a dict.\<close>

fun reconcile ::
  "string \<Rightarrow> file_meta list \<Rightarrow> json list \<Rightarrow> result_row list \<Rightarrow> pyexn + result_row list" where
  "reconcile folder_name file_metadata [] all_results = Inr all_results"
| "reconcile folder_name file_metadata (result # results) all_results =
     (case dict_get result ''id_alumno'' JNull of
        Inl e \<Rightarrow> Inl e
      | Inr ident \<Rightarrow>
          (case find_metadata file_metadata ident of
             None \<Rightarrow> reconcile folder_name file_metadata results all_results
           | Some metadata \<Rightarrow>
               (case dict_get result ''nota'' JNull of
                  Inl e \<Rightarrow> Inl e
                | Inr nota \<Rightarrow>
                    (case dict_get result ''feedback'' JNull of
                       Inl e \<Rightarrow> Inl e
                     | Inr feedback \<Rightarrow>
                         reconcile folder_name file_metadata results
                           (all_results @
                            [\<lparr>row_folder = folder_name, row_id = ident,
                              row_filename = meta_filename metadata,
                              row_curso = meta_curso metadata,
                              row_consigna = meta_consigna metadata,
                              row_nota = nota, row_feedback = feedback\<rparr>])))))"

text \<open>
  The loop over the batches. The service is a function from the number of the batch and
  the submitted items to its reply. Besides \<open>all_results\<close> the model keeps \<open>posted\<close>,
  the batches whose items were encoded and sent with \<open>POST /evaluate\<close>, in order: a batch
  without valid items is not submitted, and neither is a batch that cannot be encoded. The
  result is \<open>posted\<close> together with the accumulated rows or the exception that ends the
  loop.
\<close>

fun run_batches ::
  "(string \<Rightarrow> decoded) \<Rightarrow> (nat \<Rightarrow> batch_item list \<Rightarrow> api_reply) \<Rightarrow> dataframe \<Rightarrow> string
     \<Rightarrow> dir_entry list list \<Rightarrow> nat \<Rightarrow> batch_item list list \<Rightarrow> result_row list
     \<Rightarrow> batch_item list list \<times> (pyexn + result_row list)" where
  "run_batches loads api df folder_name [] k posted all_results = (posted, Inr all_results)"
| "run_batches loads api df folder_name (batch_files # batches) k posted all_results =
     (case prepare_batch df batch_files [] [] of
        Inl e \<Rightarrow> (posted, Inl e)
      | Inr (batch_items, file_metadata) \<Rightarrow>
          if batch_items = []
          then run_batches loads api df folder_name batches (Suc k) posted all_results
          else (let posted' = (if encode_failure batch_items = None
                               then posted @ [batch_items] else posted)
                in case evaluate_texts loads (api k batch_items) batch_items of
                     Inl e \<Rightarrow> (posted', Inl e)
                   | Inr results \<Rightarrow>
                       (case reconcile folder_name file_metadata results all_results of
                          Inl e \<Rightarrow> (posted', Inl e)
                        | Inr all_results' \<Rightarrow>
                            run_batches loads api df folder_name batches (Suc k) posted'
                              all_results')))"

text \<open>
  The end of \<open>process_folder\<close>: when there are rows, the mean, the minimum and the maximum
  of the column \<open>nota\<close> are computed and formatted as numbers. These are functions of
  \<open>pandas\<close>, a parameter \<open>nota_statistics\<close> of the model: for the values of the column it
  gives the exception that the three lines raise, \<open>None\<close> when they are printed.
\<close>

definition summarise ::
  "(json list \<Rightarrow> pyexn option) \<Rightarrow> result_row list \<Rightarrow> pyexn + result_row list" where
  "summarise nota_statistics all_results =
     (if all_results = [] then Inr all_results
      else case nota_statistics (map row_nota all_results) of
             Some e \<Rightarrow> Inl e
           | None \<Rightarrow> Inr all_results)"

text \<open>\<open>process_folder\<close>: the batches that were submitted, and the rows of the returned
  \<open>DataFrame\<close> or the exception that escapes to \<open>main\<close>. What the function prints and the
  pause between two batches are left out.\<close>

definition process_folder ::
  "(string \<Rightarrow> decoded) \<Rightarrow> (nat \<Rightarrow> batch_item list \<Rightarrow> api_reply) \<Rightarrow> (json list \<Rightarrow> pyexn option)
     \<Rightarrow> dataframe option \<Rightarrow> dir_entry list \<Rightarrow> string \<Rightarrow> int
     \<Rightarrow> batch_item list list \<times> (pyexn + result_row list)" where
  "process_folder loads api nota_statistics csv folder folder_name batch_size =
     (let consignas_df = load_consignas_csv csv
      in if df_empty consignas_df then ([], Inr [])
         else (let nor_files = get_nor_files folder
               in if nor_files = [] then ([], Inr [])
                  else (case batch_slices batch_size nor_files of
                          Inl e \<Rightarrow> ([], Inl e)
                        | Inr batches \<Rightarrow>
                            (case run_batches loads api consignas_df folder_name batches 0 [] [] of
                               (posted, Inl e) \<Rightarrow> (posted, Inl e)
                             | (posted, Inr all_results) \<Rightarrow>
                                 (posted, summarise nota_statistics all_results)))))"


section \<open>The frames of a buffer\<close>

text \<open>
  To state properties of the streaming loop: the frames that are complete in a buffer
  (the texts that the loop splits off, one after the other), whether a frame carries a
  terminal event, and the \<open>data:\<close> lines of a frame, those that the loop passes to the
  decoder.
\<close>

function complete_frames :: "string \<Rightarrow> string list" where
  "complete_frames buffer =
     (case split_blank buffer of
        None \<Rightarrow> []
      | Some (event_text, rest) \<Rightarrow> event_text # complete_frames rest)"
  by pat_completeness auto
termination
  by (relation "measure length") (auto dest: split_blank_shorter)

declare complete_frames.simps [simp del]

definition terminal_frame :: "(string \<Rightarrow> decoded) \<Rightarrow> string \<Rightarrow> bool" where
  "terminal_frame loads event_text =
     (case parse_frame loads event_text of
        Inl e \<Rightarrow> False
      | Inr event_data \<Rightarrow>
          ed_event event_data = Some ''complete'' \<or> ed_event event_data = Some ''error'')"

definition data_lines :: "string \<Rightarrow> string list" where
  "data_lines event_text =
     filter (\<lambda>line. \<not> startswith line ''event:'' \<and> startswith line ''data:'')
       (split_nl (strip event_text))"


section \<open>Conditions on a table and on the answers of the service\<close>





section \<open>A decoder and payloads for the examples\<close>

text \<open>
  The theorems below hold for every decoder \<open>loads\<close>. To run the model on concrete
  streams, \<open>loads_table\<close> decodes the payloads of the examples as \<open>json.loads\<close> does and
  answers \<open>JSONDecodeError\<close> for the texts that are not listed; of these the examples use
  \<open>{broken\<close> only, for which \<open>json.loads\<close> raises \<open>JSONDecodeError\<close>.
\<close>

definition sample_payload :: string where
  \<open>sample_payload = ''{"results": [{"id_alumno": "11410001", "nota": 7, "feedback": "ok"}]}''\<close>

definition sample_entry :: json where
  "sample_entry =
     JObj [(''id_alumno'', JStr ''11410001''), (''nota'', JInt 7), (''feedback'', JStr ''ok'')]"

definition scenario_payload :: string where
  \<open>scenario_payload = ''{"results": [{"id_alumno": "11410001", "nota": 7, "feedback": "ok"}, {"id_alumno": "11510002", "nota": 5, "feedback": "short"}], "progress": {"completed": 2, "total": 2, "percentage": 100.0}}''\<close>

definition second_entry :: json where
  "second_entry =
     JObj [(''id_alumno'', JStr ''11510002''), (''nota'', JInt 5), (''feedback'', JStr ''short'')]"

definition scenario_progress :: json where
  "scenario_progress =
     JObj [(''completed'', JInt 2), (''total'', JInt 2), (''percentage'', JFloat (FFinite 100))]"

definition loads_table :: "string \<Rightarrow> decoded" where
  "loads_table s =
     (if s = sample_payload then Decoded (JObj [(''results'', JArr [sample_entry])])
      else if s = scenario_payload
      then Decoded (JObj [(''results'', JArr [sample_entry, second_entry]),
                          (''progress'', scenario_progress)])
      else if s = ''{}'' then Decoded (JObj [])
      else JSONDecodeError)"

text \<open>Frames of the examples: the blank line that ends a frame, a \<open>batch_complete\<close>
  frame with one result, a \<open>complete\<close> frame, and two frames whose data line is not
  JSON.\<close>

definition blank_line :: string where
  "blank_line = ''\<newline>\<newline>''"

definition good_frame :: string where
  "good_frame = ''event: batch_complete\<newline>data: '' @ sample_payload"

definition complete_frame :: string where
  "complete_frame = ''event: complete''"

definition corrupt_frame :: string where
  "corrupt_frame = ''event: batch_complete\<newline>data: {broken''"

definition corrupt_error_frame :: string where
  "corrupt_error_frame = ''event: error\<newline>data: {broken''"

text \<open>
  A prompt table under the older column names, the same table without its \<open>ID\<close> column,
  a table with its header only, the first table with the prompt left empty, the entries
  of a folder, and a service that answers every submission with the job
  \<open>J1\<close> and a stream of one \<open>batch_complete\<close> frame and one \<open>complete\<close> frame.
  \<open>sample_metadata\<close> and \<open>resent_entry\<close> are a batch in which two files bear the same
  identifier and a second result for that identifier.
\<close>

definition sample_table :: dataframe where
  "sample_table =
     \<lparr>df_columns = [''ID'', ''File ID'', ''TEXTpost2''],
      df_rows = [ [RInt 11410001, RStr ''POS1_11410001.txt'', RStr ''Describe X''] ]\<rparr>"

definition sample_table_without_id :: dataframe where
  "sample_table_without_id =
     \<lparr>df_columns = [''File ID'', ''TEXTpost2''],
      df_rows = [ [RStr ''11410001'', RStr ''Describe X''] ]\<rparr>"



definition sample_folder :: "dir_entry list" where
  "sample_folder =
     [(''POS1_11510002_NOR.txt'', Some ''World''),
      (''consignas.csv'', Some ''ID,File ID,TEXTpost2''),
      (''draft_NOR.txt'', Some ''Draft''),
      (''POS1_11410001_NOR.txt'', Some ''Hello'')]"

definition sample_metadata :: "file_meta list" where
  "sample_metadata =
     [\<lparr>meta_id = ''11410001'', meta_filename = ''A_11410001_NOR.txt'',
       meta_consigna = Scalar (RStr ''Describe X''), meta_curso = ''4t ESO''\<rparr>,
      \<lparr>meta_id = ''11410001'', meta_filename = ''B_11410001_NOR.txt'',
       meta_consigna = Scalar (RStr ''N/A''), meta_curso = ''4t ESO''\<rparr>]"

definition resent_entry :: json where
  "resent_entry =
     JObj [(''id_alumno'', JStr ''11410001''), (''nota'', JInt 9), (''feedback'', JStr ''better'')]"

text \<open>Statistics for the examples: they agree with \<open>pandas\<close> on a column of numbers,
  which is all that the examples have.\<close>

fun is_number :: "json \<Rightarrow> bool" where
  "is_number (JInt n) = True"
| "is_number (JFloat f) = True"
| "is_number _ = False"

definition numeric_statistics :: "json list \<Rightarrow> pyexn option" where
  "numeric_statistics notas = (if list_all is_number notas then None else Some TypeError)"

definition scenario_stream :: http_stream where
  "scenario_stream =
     Chunks [''event: batch_complete\<newline>data: '' @ scenario_payload @ blank_line,
             ''event: complete\<newline>data: {}'' @ blank_line] EndOfStream"

definition sample_api :: "nat \<Rightarrow> batch_item list \<Rightarrow> api_reply" where
  "sample_api k items =
     \<lparr>job_info = Some (JObj [(''job_id'', JStr ''J1''), (''estimated_time_seconds'', JInt 4)]),
      job_stream = scenario_stream\<rparr>"


section \<open>Grade-level derivation\<close>

text \<open>
  C2, as the code has it. An identifier shorter than three characters, or one whose third
  character is not a decimal digit, gives the default \<open>4t ESO\<close>; a third character
  \<open>1\<close> to \<open>6\<close> gives the ordinal of the table; a third character \<open>0\<close>, \<open>7\<close>, \<open>8\<close> or
  \<open>9\<close> gives that digit followed by \<open>\<dots> ESO\<close> with the accented e, not the default.
\<close>

theorem extract_curso_from_id_total:
  "(length s < 3 \<longrightarrow> extract_curso_from_id s = ''4t ESO'')
   \<and> (3 \<le> length s \<and> \<not> is_digit (s ! 2) \<longrightarrow> extract_curso_from_id s = ''4t ESO'')
   \<and> (3 \<le> length s \<and> s ! 2 = CHR ''1'' \<longrightarrow> extract_curso_from_id s = ''1r ESO'')
   \<and> (3 \<le> length s \<and> s ! 2 = CHR ''2'' \<longrightarrow> extract_curso_from_id s = ''2n ESO'')
   \<and> (3 \<le> length s \<and> s ! 2 = CHR ''3'' \<longrightarrow> extract_curso_from_id s = ''3r ESO'')
   \<and> (3 \<le> length s \<and> s ! 2 = CHR ''4'' \<longrightarrow> extract_curso_from_id s = ''4t ESO'')
   \<and> (3 \<le> length s \<and> s ! 2 = CHR ''5'' \<longrightarrow>
        extract_curso_from_id s = ''5'' @ [CHR 0xE8] @ '' ESO'')
   \<and> (3 \<le> length s \<and> s ! 2 = CHR ''6'' \<longrightarrow>
        extract_curso_from_id s = ''6'' @ [CHR 0xE8] @ '' ESO'')
   \<and> (3 \<le> length s \<and> s ! 2 \<in> set ''0789'' \<longrightarrow>
        extract_curso_from_id s = [s ! 2] @ [CHR 0xE8] @ '' ESO'')"
  by (auto simp: extract_curso_from_id_def is_digit_def int_of_char_def
      curso_ordinals_def str_nat.simps)

theorem extract_curso_from_id_total_witness:
  "extract_curso_from_id ''11'' = ''4t ESO''
   \<and> extract_curso_from_id ''11x10003'' = ''4t ESO''
   \<and> extract_curso_from_id ''11110007'' = ''1r ESO''
   \<and> extract_curso_from_id ''11210007'' = ''2n ESO''
   \<and> extract_curso_from_id ''11310007'' = ''3r ESO''
   \<and> extract_curso_from_id ''11410003'' = ''4t ESO''
   \<and> extract_curso_from_id ''11510082'' = ''5'' @ [CHR 0xE8] @ '' ESO''
   \<and> extract_curso_from_id ''11610007'' = ''6'' @ [CHR 0xE8] @ '' ESO''
   \<and> extract_curso_from_id ''11710001'' = ''7'' @ [CHR 0xE8] @ '' ESO''"
  using extract_curso_from_id_total [of "''11''"]
    extract_curso_from_id_total [of "''11x10003''"]
    extract_curso_from_id_total [of "''11110007''"]
    extract_curso_from_id_total [of "''11210007''"]
    extract_curso_from_id_total [of "''11310007''"]
    extract_curso_from_id_total [of "''11410003''"]
    extract_curso_from_id_total [of "''11510082''"]
    extract_curso_from_id_total [of "''11610007''"]
    extract_curso_from_id_total [of "''11710001''"]
  by (simp add: is_digit_def)

text \<open>
  The claim's last case fails: for the identifier \<open>11710001\<close> the third character is the
  digit 7, outside the table, and the result is not the default.
\<close>

theorem extract_curso_from_id_default_counterexample:
  "extract_curso_from_id ''11710001'' \<noteq> ''4t ESO''"
  by (simp add: extract_curso_from_id_def int_of_char_def curso_ordinals_def str_nat.simps)

section \<open>Terminal events\<close>

text \<open>
  C1 does not hold of the code. The \<open>break\<close> on a \<open>complete\<close> or \<open>error\<close> event leaves
  the \<open>while\<close> loop only; the \<open>for\<close> loop over the chunks goes on, and the next chunk
  restarts the frame loop on what is left in the buffer. Here a \<open>complete\<close> frame comes in
  a first chunk and a \<open>batch_complete\<close> frame in a second one: the later frame is
  handled, and its result is returned.
\<close>

theorem events_handled_after_complete:
  "stream_results loads_table
     (Chunks [complete_frame @ blank_line, good_frame @ blank_line] EndOfStream)
   = Inr ([sample_entry], [JobCompleted])"
  by code_simp


section \<open>Frames whose data line does not decode\<close>

lemma parse_lines_undecodable:
  "\<forall>line \<in> set lines. startswith line ''data:'' \<and> \<not> startswith line ''event:''
       \<longrightarrow> loads (strip (drop 5 line)) = JSONDecodeError \<Longrightarrow>
   \<exists>ed'. parse_lines loads lines ed = Inr ed' \<and> ed_data ed' = ed_data ed"
proof (induction lines arbitrary: ed)
  case Nil
  then show ?case by simp
next
  case (Cons line lines)
  have rest: "\<forall>line \<in> set lines. startswith line ''data:'' \<and> \<not> startswith line ''event:''
       \<longrightarrow> loads (strip (drop 5 line)) = JSONDecodeError"
    using Cons.prems by simp
  show ?case
  proof (cases "startswith line ''event:''")
    case True
    then show ?thesis
      using Cons.IH [OF rest, of "ed\<lparr>ed_event := Some (strip (drop 6 line))\<rparr>"] by simp
  next
    case False
    then show ?thesis
      using Cons.IH [OF rest, of ed] Cons.prems by (cases "startswith line ''data:''") simp_all
  qed
qed

lemma undecodable_no_data:
  "\<forall>line \<in> set (data_lines event_text). loads (strip (drop 5 line)) = JSONDecodeError \<Longrightarrow>
   \<exists>ed. parse_frame loads event_text = Inr ed \<and> ed_data ed = None"
  using parse_lines_undecodable [of "split_nl (strip event_text)" loads no_event_data]
  by (auto simp: parse_frame_def data_lines_def no_event_data_def)

lemma handle_batch_complete_empty:
  "handle_batch_complete (JObj []) results out = Next results out"
  by (simp add: handle_batch_complete_def dict_get_def print_progress_def)

text \<open>
  C4, as the code has it. When the decoder rejects every data line of a frame with
  \<open>JSONDecodeError\<close>, only the payload is dropped, and the frame is handled by its event
  type with no payload: a \<open>complete\<close> frame still prints its line and stops the frame
  loop, an \<open>error\<close> frame prints \<open>Unknown error\<close> and stops it, and for every other
  event type (\<open>batch_complete\<close> among them) the frame adds no result, prints nothing, and
  the loop goes on with the rest of the buffer.
\<close>

theorem undecodable_frame:
  assumes "split_blank buffer = Some (event_text, rest)"
      and "\<forall>line \<in> set (data_lines event_text).
             loads (strip (drop 5 line)) = JSONDecodeError"
  shows "\<exists>ed. parse_frame loads event_text = Inr ed \<and> ed_data ed = None
          \<and> process_buffer loads buffer results out =
              (if ed_event ed = Some ''complete''
               then Inr (rest, results, out @ [JobCompleted])
               else if ed_event ed = Some ''error''
               then Inr (rest, results, out @ [ErrorMessage (JStr ''Unknown error'')])
               else process_buffer loads rest results out)"
proof -
  obtain ed where pf: "parse_frame loads event_text = Inr ed" and nd: "ed_data ed = None"
    using undecodable_no_data [OF assms(2)] by blast
  have "process_buffer loads buffer results out =
          (if ed_event ed = Some ''complete''
           then Inr (rest, results, out @ [JobCompleted])
           else if ed_event ed = Some ''error''
           then Inr (rest, results, out @ [ErrorMessage (JStr ''Unknown error'')])
           else process_buffer loads rest results out)"
    using assms(1) pf nd
    by (simp add: process_buffer.simps [of loads buffer] handle_event_def Let_def
        handle_batch_complete_empty dict_get_def)
  then show ?thesis using pf nd by blast
qed

text \<open>An exception of the decoder other than \<open>JSONDecodeError\<close> is not caught: it leaves
  \<open>stream_results\<close>.\<close>

lemma parse_lines_raises:
  "line \<in> set lines \<Longrightarrow> startswith line ''data:'' \<Longrightarrow> \<not> startswith line ''event:'' \<Longrightarrow>
   loads (strip (drop 5 line)) = DecoderRaises e \<Longrightarrow>
   \<exists>e'. parse_lines loads lines ed = Inl e'"
proof (induction lines arbitrary: ed)
  case Nil
  then show ?case by simp
next
  case (Cons l ls)
  show ?case
  proof (cases "l = line")
    case True
    then show ?thesis using Cons.prems by simp
  next
    case False
    then have "line \<in> set ls" using Cons.prems(1) by simp
    then have "\<exists>e'. parse_lines loads ls ed' = Inl e'" for ed'
      using Cons.IH Cons.prems(2-4) by blast
    then show ?thesis by (auto split: decoded.splits)
  qed
qed

lemma decoder_exception_escapes:
  assumes "split_blank buffer = Some (event_text, rest)"
      and "line \<in> set (data_lines event_text)"
      and "loads (strip (drop 5 line)) = DecoderRaises e"
  shows "\<exists>e'. process_buffer loads buffer results out = Inl e'"
proof -
  have "\<exists>e'. parse_frame loads event_text = Inl e'"
    using assms(2,3) parse_lines_raises [of line "split_nl (strip event_text)" loads e no_event_data]
    by (auto simp: parse_frame_def data_lines_def)
  then show ?thesis
    using assms(1) by (auto simp: process_buffer.simps [of loads buffer])
qed

lemma corrupt_frame_split:
  "split_blank (corrupt_frame @ blank_line @ good_frame @ blank_line)
     = Some (corrupt_frame, good_frame @ blank_line)"
  by code_simp

lemma corrupt_frame_undecodable:
  "\<forall>line \<in> set (data_lines corrupt_frame).
     loads_table (strip (drop 5 line)) = JSONDecodeError"
  by code_simp

lemma corrupt_frame_event:
  "parse_frame loads_table corrupt_frame
     = Inr \<lparr>ed_event = Some ''batch_complete'', ed_data = None\<rparr>"
  by code_simp

lemma good_frame_result:
  "process_buffer loads_table (good_frame @ blank_line) [] [] = Inr ([], [sample_entry], [])"
  by code_simp

lemma corrupt_error_frame_split:
  "split_blank (corrupt_error_frame @ blank_line @ good_frame @ blank_line)
     = Some (corrupt_error_frame, good_frame @ blank_line)"
  by code_simp

lemma corrupt_error_frame_undecodable:
  "\<forall>line \<in> set (data_lines corrupt_error_frame).
     loads_table (strip (drop 5 line)) = JSONDecodeError"
  by code_simp

lemma corrupt_error_frame_event:
  "parse_frame loads_table corrupt_error_frame
     = Inr \<lparr>ed_event = Some ''error'', ed_data = None\<rparr>"
  by code_simp

theorem undecodable_frame_witness:
  "process_buffer loads_table (corrupt_frame @ blank_line @ good_frame @ blank_line) [] []
     = Inr ([], [sample_entry], [])
   \<and> process_buffer loads_table
         (corrupt_error_frame @ blank_line @ good_frame @ blank_line) [] []
     = Inr (good_frame @ blank_line, [], [ErrorMessage (JStr ''Unknown error'')])"
  using undecodable_frame [OF corrupt_frame_split corrupt_frame_undecodable, of "[]" "[]"]
    undecodable_frame [OF corrupt_error_frame_split corrupt_error_frame_undecodable, of "[]" "[]"]
  by (simp add: corrupt_frame_event good_frame_result corrupt_error_frame_event)

text \<open>
  The claim as stated fails for an \<open>error\<close> frame whose data line is not JSON: the frame
  is not dropped, it prints an error line and stops the frame loop, so the result of the
  frame that follows it in the chunk is not returned, while the same stream without the
  corrupt frame returns it.
\<close>

theorem undecodable_frame_not_dropped_counterexample:
  "loads_table ''{broken'' = JSONDecodeError
   \<and> stream_results loads_table
       (Chunks [corrupt_error_frame @ blank_line @ good_frame @ blank_line] EndOfStream)
     = Inr ([], [ErrorMessage (JStr ''Unknown error'')])
   \<and> stream_results loads_table (Chunks [good_frame @ blank_line] EndOfStream)
     = Inr ([sample_entry], [])"
  by code_simp


section \<open>Chunk boundaries\<close>

lemma split_blank_append:
  "split_blank a = Some (x, y) \<Longrightarrow> split_blank (a @ b) = Some (x, y @ b)"
  by (induction a arbitrary: x rule: split_blank.induct)
     (auto split: if_splits option.splits)

lemma handle_batch_complete_not_Break: "handle_batch_complete p r out \<noteq> Break r' out'"
  by (simp add: handle_batch_complete_def split: sum.splits)

lemma handle_event_Break:
  "handle_event ed r out = Break r' out' \<Longrightarrow>
     ed_event ed = Some ''complete'' \<or> ed_event ed = Some ''error''"
  by (auto simp: handle_event_def Let_def handle_batch_complete_not_Break split: if_splits)

text \<open>As long as no terminal frame is complete in the first part of a buffer, the frame
  loop on the whole buffer is the frame loop on the first part, continued on what it
  leaves followed by the second part.\<close>

lemma process_buffer_append:
  "\<forall>f \<in> set (complete_frames a). \<not> terminal_frame loads f \<Longrightarrow>
   process_buffer loads (a @ b) r out =
     (case process_buffer loads a r out of
        Inl e \<Rightarrow> Inl e
      | Inr (buf, r', out') \<Rightarrow> process_buffer loads (buf @ b) r' out')"
proof (induction loads a r out rule: process_buffer.induct)
  case (1 loads buffer results out)
  show ?case
  proof (cases "split_blank buffer")
    case None
    then show ?thesis
      by (simp add: process_buffer.simps [of loads buffer])
  next
    case (Some p)
    obtain x y where sb: "split_blank buffer = Some (x, y)"
      using Some by (cases p) simp
    have sba: "split_blank (buffer @ b) = Some (x, y @ b)"
      using sb by (rule split_blank_append)
    have frames: "complete_frames buffer = x # complete_frames y"
      using sb by (simp add: complete_frames.simps [of buffer])
    have nt: "\<not> terminal_frame loads x"
      and rest: "\<forall>f \<in> set (complete_frames y). \<not> terminal_frame loads f"
      using "1.prems" frames by simp_all
    show ?thesis
    proof (cases "parse_frame loads x")
      case (Inl e)
      then show ?thesis
        using sb sba
        by (simp add: process_buffer.simps [of loads buffer]
            process_buffer.simps [of loads "buffer @ b"])
    next
      case (Inr ed)
      show ?thesis
      proof (cases "handle_event ed results out")
        case (Next r' out')
        have "process_buffer loads (y @ b) r' out' =
                (case process_buffer loads y r' out' of
                   Inl e \<Rightarrow> Inl e
                 | Inr (buf, r'', out'') \<Rightarrow> process_buffer loads (buf @ b) r'' out'')"
          using "1.IH" [OF sb refl Inr Next rest] .
        then show ?thesis
          using sb sba Inr Next
          by (simp add: process_buffer.simps [of loads buffer]
              process_buffer.simps [of loads "buffer @ b"])
      next
        case (Break r' out')
        then have False
          using nt Inr handle_event_Break [OF Break] by (simp add: terminal_frame_def)
        then show ?thesis ..
      next
        case (Raise e)
        then show ?thesis
          using sb sba Inr
          by (simp add: process_buffer.simps [of loads buffer]
              process_buffer.simps [of loads "buffer @ b"])
      qed
    qed
  qed
qed

text \<open>
  Where splitting a payload in two chunks changes nothing: when no \<open>complete\<close> or
  \<open>error\<close> frame is complete inside the first chunk.
\<close>

lemma chunk_split_without_terminal:
  assumes "\<forall>f \<in> set (complete_frames c1). \<not> terminal_frame loads f"
  shows "stream_results loads (Chunks [c1, c2] ending)
           = stream_results loads (Chunks [c1 @ c2] ending)"
proof -
  have "consume loads [c1, c2] [] [] [] = consume loads [c1 @ c2] [] [] []"
  proof (cases "c1 = []")
    case True
    then show ?thesis by simp
  next
    case c1: False
    show ?thesis
    proof (cases "c2 = []")
      case True
      then show ?thesis using c1 by (simp split: sum.splits)
    next
      case False
      then show ?thesis
        using c1 process_buffer_append [OF assms, of c2 "[]" "[]"]
        by (simp split: sum.splits prod.splits)
    qed
  qed
  then show ?thesis by (simp add: stream_results_def)
qed

text \<open>
  C5 does not hold of the code. A payload made of a \<open>complete\<close> frame followed by a
  \<open>batch_complete\<close> frame, delivered as one chunk, returns no result: the frame loop
  stops at \<open>complete\<close> and there is no other chunk. The same payload split inside its
  second frame returns the result of that frame: the second chunk restarts the frame
  loop.
\<close>

theorem chunk_split_changes_results:
  "stream_results loads_table
     (Chunks [complete_frame @ blank_line @ ''event: ba'',
              ''tch_complete\<newline>data: '' @ sample_payload @ blank_line] EndOfStream)
   = Inr ([sample_entry], [JobCompleted])
   \<and> stream_results loads_table
       (Chunks [(complete_frame @ blank_line @ ''event: ba'')
                @ (''tch_complete\<newline>data: '' @ sample_payload @ blank_line)] EndOfStream)
     = Inr ([], [JobCompleted])"
  by code_simp


section \<open>Transport failures\<close>

lemma handle_batch_complete_Next:
  "handle_batch_complete p r out = Next r' out' \<Longrightarrow> prefix r r'"
  by (auto simp: handle_batch_complete_def split: sum.splits)

lemma handle_event_prefix:
  "handle_event ed r out = Next r' out' \<or> handle_event ed r out = Break r' out' \<Longrightarrow>
     prefix r r'"
  by (auto simp: handle_event_def Let_def handle_batch_complete_not_Break
      dest: handle_batch_complete_Next split: if_splits sum.splits)

lemma process_buffer_prefix:
  "process_buffer loads b r out = Inr (b', r', out') \<Longrightarrow> prefix r r'"
proof (induction loads b r out rule: process_buffer.induct)
  case (1 loads buffer results out)
  show ?case
  proof (cases "split_blank buffer")
    case None
    then show ?thesis
      using "1.prems" by (simp add: process_buffer.simps [of loads buffer])
  next
    case (Some p)
    obtain x y where sb: "split_blank buffer = Some (x, y)"
      using Some by (cases p) simp
    show ?thesis
    proof (cases "parse_frame loads x")
      case (Inl e)
      then show ?thesis
        using "1.prems" sb by (simp add: process_buffer.simps [of loads buffer])
    next
      case (Inr ed)
      show ?thesis
      proof (cases "handle_event ed results out")
        case (Next r1 out1)
        have "process_buffer loads y r1 out1 = Inr (b', r', out')"
          using "1.prems" sb Inr Next by (simp add: process_buffer.simps [of loads buffer])
        then have "prefix r1 r'"
          using "1.IH" [OF sb refl Inr Next] by simp
        moreover have "prefix results r1"
          using handle_event_prefix Next by blast
        ultimately show ?thesis
          by (rule prefix_order.order_trans [rotated])
      next
        case (Break r1 out1)
        then have "r' = r1"
          using "1.prems" sb Inr by (simp add: process_buffer.simps [of loads buffer])
        then show ?thesis
          using handle_event_prefix Break by blast
      next
        case (Raise e)
        then show ?thesis
          using "1.prems" sb Inr by (simp add: process_buffer.simps [of loads buffer])
      qed
    qed
  qed
qed

lemma consume_prefix:
  "consume loads cs b r out = Inr (b', r', out') \<Longrightarrow> prefix r r'"
proof (induction cs arbitrary: b r out)
  case Nil
  then show ?case by simp
next
  case (Cons c cs)
  show ?case
  proof (cases "c = []")
    case True
    then show ?thesis using Cons by simp
  next
    case False
    then obtain b1 r1 o1 where pb: "process_buffer loads (b @ c) r out = Inr (b1, r1, o1)"
      and rest: "consume loads cs b1 r1 o1 = Inr (b', r', out')"
      using Cons.prems by (auto split: sum.splits)
    have "prefix r r1" using pb by (rule process_buffer_prefix)
    moreover have "prefix r1 r'" using rest by (rule Cons.IH)
    ultimately show ?thesis by (rule prefix_order.order_trans)
  qed
qed

lemma consume_append:
  "consume loads (cs1 @ cs2) b r out =
     (case consume loads cs1 b r out of
        Inl e \<Rightarrow> Inl e
      | Inr (b', r', out') \<Rightarrow> consume loads cs2 b' r' out')"
  by (induction cs1 arbitrary: b r out) (auto split: sum.splits)

text \<open>
  C8. When the stream fails after the chunks \<open>cs1 @ cs2\<close> have been consumed,
  \<open>stream_results\<close> returns the results that the loop has accumulated over these chunks
  (and reports the failure): the same list as for a stream that ends normally after
  these chunks. Whatever had been accumulated at an earlier point, after \<open>cs1\<close>, is an
  initial part of the returned list: nothing is discarded. A request that fails before
  any chunk returns the empty list.
\<close>

theorem stream_failure_keeps_partial_results:
  assumes "consume loads (cs1 @ cs2) [] [] [] = Inr (buffer, results, out)"
  shows "stream_results loads (Chunks (cs1 @ cs2) TransportFailure)
           = Inr (results, out @ [ErrorStreaming])
         \<and> stream_results loads (Chunks (cs1 @ cs2) EndOfStream) = Inr (results, out)
         \<and> (\<exists>b1 r1 o1. consume loads cs1 [] [] [] = Inr (b1, r1, o1) \<and> prefix r1 results)
         \<and> stream_results loads RequestFailed = Inr ([], [ErrorStreaming])"
proof -
  obtain b1 r1 o1 where c1: "consume loads cs1 [] [] [] = Inr (b1, r1, o1)"
    and c2: "consume loads cs2 b1 r1 o1 = Inr (buffer, results, out)"
    using assms by (auto simp: consume_append split: sum.splits)
  have "prefix r1 results" using c2 by (rule consume_prefix)
  then show ?thesis using assms c1 by (simp add: stream_results_def)
qed

lemma partial_stream_consumed:
  "consume loads_table ([good_frame @ blank_line] @ [''event: ba'']) [] [] []
     = Inr (''event: ba'', [sample_entry], [])"
  by code_simp

theorem stream_failure_keeps_partial_results_witness:
  "stream_results loads_table
     (Chunks ([good_frame @ blank_line] @ [''event: ba'']) TransportFailure)
   = Inr ([sample_entry], [ErrorStreaming])"
  using stream_failure_keeps_partial_results [OF partial_stream_consumed] by simp

section \<open>Batches\<close>

lemma slices_concat: "0 < b \<Longrightarrow> concat (slices_from i b xs) = drop i xs"
proof (induction i b xs rule: slices_from.induct)
  case (1 i b xs)
  show ?case
  proof (cases "i < length xs")
    case True
    have "take b (drop i xs) @ drop (i + b) xs = drop i xs"
      by (metis add.commute append_take_drop_id drop_drop)
    then show ?thesis
      using True 1 by (simp add: slices_from.simps [of i b xs])
  next
    case False
    then show ?thesis by (simp add: slices_from.simps [of i b xs])
  qed
qed

lemma ceil_step:
  assumes "0 < b" "0 < (n::nat)"
  shows "(n + b - 1) div b = Suc ((n - b + b - 1) div b)"
proof (cases "n \<le> b")
  case True
  have "b \<le> n + b - 1" "n + b - 1 < 2 * b" using assms True by simp_all
  then have "(n + b - 1) div b = 1"
    using assms(1) by (simp add: div_nat_eqI)
  moreover have "(n - b + b - 1) div b = 0" using True assms(1) by simp
  ultimately show ?thesis by simp
next
  case False
  have "(n + b - 1) div b = ((n - 1) + 1 * b) div b"
    using assms(2) by simp
  also have "\<dots> = 1 + (n - 1) div b"
    using assms(1) by (simp only: div_mult_self1) 
  finally have "(n + b - 1) div b = Suc ((n - 1) div b)" by simp
  moreover have "n - b + b - 1 = n - 1" using False by simp
  ultimately show ?thesis by (simp only:)
qed

lemma slices_length:
  "0 < b \<Longrightarrow> length (slices_from i b xs) = (length xs - i + b - 1) div b"
proof (induction i b xs rule: slices_from.induct)
  case (1 i b xs)
  show ?case
  proof (cases "i < length xs")
    case True
    have "length (slices_from (i + b) b xs) = (length xs - (i + b) + b - 1) div b"
      using 1 True by simp
    moreover have "(length xs - i + b - 1) div b = Suc ((length xs - i - b + b - 1) div b)"
      using ceil_step [of b "length xs - i"] True "1.prems" by (simp only: zero_less_diff)
    ultimately show ?thesis
      using True "1.prems" by (simp add: slices_from.simps [of i b xs])
  next
    case False
    then show ?thesis using "1.prems" by (simp add: slices_from.simps [of i b xs])
  qed
qed

lemma slices_sizes:
  "0 < b \<Longrightarrow> s \<in> set (slices_from i b xs) \<Longrightarrow> s \<noteq> [] \<and> length s \<le> b"
proof (induction i b xs rule: slices_from.induct)
  case (1 i b xs)
  show ?case
  proof (cases "i < length xs")
    case True
    then show ?thesis
      using 1 by (auto simp: slices_from.simps [of i b xs])
  next
    case False
    then show ?thesis using "1.prems" by (simp add: slices_from.simps [of i b xs])
  qed
qed

lemma slices_full:
  "0 < b \<Longrightarrow> s \<in> set (butlast (slices_from i b xs)) \<Longrightarrow> length s = b"
proof (induction i b xs rule: slices_from.induct)
  case (1 i b xs)
  show ?case
  proof (cases "i < length xs")
    case True
    show ?thesis
    proof (cases "slices_from (i + b) b xs = []")
      case True
      then show ?thesis
        using \<open>i < length xs\<close> "1.prems" by (simp add: slices_from.simps [of i b xs])
    next
      case False
      then have more: "i + b < length xs"
        by (simp add: slices_from.simps [of "i + b" b xs] split: if_splits)
      have "s = take b (drop i xs) \<or> s \<in> set (butlast (slices_from (i + b) b xs))"
        using \<open>i < length xs\<close> "1.prems" False by (simp add: slices_from.simps [of i b xs])
      then show ?thesis
        using more 1 \<open>i < length xs\<close> by auto
    qed
  next
    case False
    then show ?thesis using "1.prems" by (simp add: slices_from.simps [of i b xs])
  qed
qed

lemma ceil_div_int:
  assumes "1 \<le> (b::int)"
  shows "- (- a div b) = (a + b - 1) div b"
proof -
  define q r where "q = a div b" and "r = a mod b"
  have a: "a = r + q * b" by (simp add: q_def r_def)
  have r: "0 \<le> r" "r < b" using assms by (simp_all add: r_def)
  have b0: "b \<noteq> 0" using assms by simp
  have split: "(x + c * b) div b = c + x div b" for x c
    by (rule div_mult_self1 [OF b0])
  show ?thesis
  proof (cases "r = 0")
    case True
    have "- a = 0 + (- q) * b" using a True by simp
    then have "- a div b = (0 + (- q) * b) div b" by (simp only:)
    then have l: "- (- a div b) = q" by (simp only: split) simp
    have "a + b - 1 = (b - 1) + q * b" using a True by simp
    then have "(a + b - 1) div b = ((b - 1) + q * b) div b" by (simp only:)
    then have "(a + b - 1) div b = q + (b - 1) div b" by (simp only: split)
    moreover have "(b - 1) div b = 0" using assms by (simp add: div_pos_pos_trivial)
    ultimately show ?thesis using l by simp
  next
    case False
    have "- a = (b - r) + (- q - 1) * b" by (simp add: a algebra_simps)
    then have "- a div b = ((b - r) + (- q - 1) * b) div b" by (simp only:)
    then have "- a div b = (- q - 1) + (b - r) div b" by (simp only: split)
    moreover have "(b - r) div b = 0" using r False by (simp add: div_pos_pos_trivial)
    ultimately have l: "- (- a div b) = q + 1" by simp
    have "a + b - 1 = (r - 1) + (q + 1) * b" by (simp add: a algebra_simps)
    then have "(a + b - 1) div b = ((r - 1) + (q + 1) * b) div b" by (simp only:)
    then have "(a + b - 1) div b = (q + 1) + (r - 1) div b" by (simp only: split)
    moreover have "(r - 1) div b = 0" using r False by (simp add: div_pos_pos_trivial)
    ultimately show ?thesis using l by simp
  qed
qed

text \<open>
  C6. For a batch size of 1 at least the loop produces batches whose concatenation is
  the list of files itself, in its order; there are \<open>\<lceil>N / B\<rceil>\<close> of them, none is
  empty or longer than \<open>B\<close>, and all but the last have exactly \<open>B\<close> files.
\<close>

theorem batch_slices_partition:
  assumes "1 \<le> B"
  shows "\<exists>batches. batch_slices B xs = Inr batches
           \<and> concat batches = xs
           \<and> int (length batches) = \<lceil>real (length xs) / real_of_int B\<rceil>
           \<and> (\<forall>s \<in> set batches. s \<noteq> [] \<and> int (length s) \<le> B)
           \<and> (\<forall>s \<in> set (butlast batches). int (length s) = B)"
proof -
  define b where "b = nat B"
  have b: "0 < b" "B = int b" using assms by (simp_all add: b_def)
  have bs: "batch_slices B xs = Inr (slices_from 0 b xs)"
    using assms by (simp add: batch_slices_def b_def)
  have len: "length (slices_from 0 b xs) = (length xs + b - 1) div b"
    using slices_length [OF b(1), of 0 xs] by simp
  have "int ((length xs + b - 1) div b) = (int (length xs) + int b - 1) div int b"
    using b(1) by (simp add: zdiv_int of_nat_diff)
  then have l1: "int (length (slices_from 0 b xs)) = (int (length xs) + B - 1) div B"
    using len b(2) by simp
  have "\<lceil>real (length xs) / real_of_int B\<rceil> = - (- int (length xs) div B)"
    using ceiling_divide_eq_div [of "int (length xs)" B, where 'a = real] by simp
  also have "\<dots> = (int (length xs) + B - 1) div B"
    using assms by (rule ceil_div_int)
  finally have l2: "int (length (slices_from 0 b xs)) = \<lceil>real (length xs) / real_of_int B\<rceil>"
    using l1 by simp
  have c: "concat (slices_from 0 b xs) = xs"
    using slices_concat [OF b(1), of 0 xs] by simp
  have s1: "\<forall>s \<in> set (slices_from 0 b xs). s \<noteq> [] \<and> int (length s) \<le> B"
    using slices_sizes [OF b(1)] b(2) by fastforce
  have s2: "\<forall>s \<in> set (butlast (slices_from 0 b xs)). int (length s) = B"
    using slices_full [OF b(1)] b(2) by fastforce
  show ?thesis
    using bs c l2 s1 s2 by blast
qed

theorem batch_slices_partition_witness:
  "\<exists>batches. batch_slices 2 [''a'', ''b'', ''c''] = Inr batches
     \<and> concat batches = [''a'', ''b'', ''c'']
     \<and> int (length batches) = 2"
proof -
  have c: "\<lceil>real (length [''a'', ''b'', ''c'']) / real_of_int 2\<rceil> = 2" by simp
  show ?thesis
    using batch_slices_partition [of 2 "[''a'', ''b'', ''c'']"] unfolding c by auto
qed

lemma get_nor_files_scan:
  "sorted (map fst (get_nor_files folder))
   \<and> set (get_nor_files folder) = {e \<in> set folder. endswith (fst e) ''_NOR.txt''}"
  by (auto simp: get_nor_files_def)


section \<open>Reconciliation\<close>

lemma find_first_match:
  "P x \<Longrightarrow> \<forall>y \<in> set before. \<not> P y \<Longrightarrow> find P (before @ x # rest) = Some x"
  by (induction before) auto

text \<open>
  C10. When every streamed entry is a dict and \<open>metadata\<close> is the first entry of the
  batch metadata that bears the identifier \<open>sid\<close>, the reconciliation appends its rows to
  the accumulated ones, and the rows for \<open>sid\<close> are, in order, one row for each streamed
  entry with that identifier, each joined to \<open>metadata\<close>: nothing is deduplicated.
\<close>

theorem reconcile_first_match:
  assumes "\<forall>r \<in> set results. \<exists>kvs. r = JObj kvs"
      and "file_metadata = before @ metadata # rest"
      and "meta_id metadata = sid"
      and "\<forall>m \<in> set before. meta_id m \<noteq> sid"
  shows "\<exists>rows. reconcile folder_name file_metadata results all_results = Inr (all_results @ rows)
           \<and> filter (\<lambda>row. row_id row = JStr sid) rows =
               map (\<lambda>r. \<lparr>row_folder = folder_name, row_id = JStr sid,
                          row_filename = meta_filename metadata,
                          row_curso = meta_curso metadata,
                          row_consigna = meta_consigna metadata,
                          row_nota = entry_field r ''nota'',
                          row_feedback = entry_field r ''feedback''\<rparr>)
                 (filter (\<lambda>r. entry_field r ''id_alumno'' = JStr sid) results)"
proof -
  have fm: "find_metadata file_metadata (JStr sid) = Some metadata"
    using assms(2-4) by (simp add: find_metadata_def find_first_match)
  show ?thesis
    using assms(1)
  proof (induction results arbitrary: all_results)
    case Nil
    then show ?case by simp
  next
    case (Cons r rs)
    then obtain kvs where r: "r = JObj kvs" by auto
    let ?ident = "entry_field r ''id_alumno''"
    have g: "dict_get r k JNull = Inr (entry_field r k)" for k
      using r by (simp add: entry_field_def dict_get_def)
    have rs: "\<forall>r \<in> set rs. \<exists>kvs. r = JObj kvs" using Cons.prems by simp
    show ?case
    proof (cases "find_metadata file_metadata ?ident")
      case None
      then have ne: "?ident \<noteq> JStr sid" using fm by auto
      obtain rows where
        "reconcile folder_name file_metadata rs all_results = Inr (all_results @ rows)"
        and "filter (\<lambda>row. row_id row = JStr sid) rows =
               map (\<lambda>r. \<lparr>row_folder = folder_name, row_id = JStr sid,
                          row_filename = meta_filename metadata,
                          row_curso = meta_curso metadata,
                          row_consigna = meta_consigna metadata,
                          row_nota = entry_field r ''nota'',
                          row_feedback = entry_field r ''feedback''\<rparr>)
                 (filter (\<lambda>r. entry_field r ''id_alumno'' = JStr sid) rs)"
        using Cons.IH [OF rs, of all_results] by blast
      then show ?thesis using None ne g by auto
    next
      case (Some m)
      let ?row = "\<lparr>row_folder = folder_name, row_id = ?ident,
                    row_filename = meta_filename m, row_curso = meta_curso m,
                    row_consigna = meta_consigna m,
                    row_nota = entry_field r ''nota'',
                    row_feedback = entry_field r ''feedback''\<rparr>"
      obtain rows where 1: "reconcile folder_name file_metadata rs (all_results @ [?row])
                            = Inr ((all_results @ [?row]) @ rows)"
        and 2: "filter (\<lambda>row. row_id row = JStr sid) rows =
               map (\<lambda>r. \<lparr>row_folder = folder_name, row_id = JStr sid,
                          row_filename = meta_filename metadata,
                          row_curso = meta_curso metadata,
                          row_consigna = meta_consigna metadata,
                          row_nota = entry_field r ''nota'',
                          row_feedback = entry_field r ''feedback''\<rparr>)
                 (filter (\<lambda>r. entry_field r ''id_alumno'' = JStr sid) rs)"
        using Cons.IH [OF rs, of "all_results @ [?row]"] by blast
      have 3: "reconcile folder_name file_metadata (r # rs) all_results
                 = Inr (all_results @ (?row # rows))"
        using 1 Some g by simp
      have 4: "?ident = JStr sid \<Longrightarrow> m = metadata" using Some fm by simp
      show ?thesis
      proof (cases "?ident = JStr sid")
        case True
        then show ?thesis using 2 3 4 by auto
      next
        case False
        then show ?thesis using 2 3 by auto
      qed
    qed
  qed
qed

lemma sample_entries_dicts: "\<forall>r \<in> set [sample_entry, resent_entry]. \<exists>kvs. r = JObj kvs"
  by (simp add: sample_entry_def resent_entry_def)

lemma sample_metadata_first: "sample_metadata = [] @ hd sample_metadata # tl sample_metadata"
  by (simp add: sample_metadata_def)

lemma sample_metadata_id: "meta_id (hd sample_metadata) = ''11410001''"
  by (simp add: sample_metadata_def)

lemma nothing_before_first: "\<forall>m \<in> set []. meta_id m \<noteq> ''11410001''"
  by simp

theorem reconcile_first_match_witness:
  "\<exists>rows. reconcile ''POS1'' sample_metadata [sample_entry, resent_entry] [] = Inr rows
     \<and> filter (\<lambda>row. row_id row = JStr ''11410001'') rows =
        [\<lparr>row_folder = ''POS1'', row_id = JStr ''11410001'',
          row_filename = ''A_11410001_NOR.txt'', row_curso = ''4t ESO'',
          row_consigna = Scalar (RStr ''Describe X''), row_nota = JInt 7, row_feedback = JStr ''ok''\<rparr>,
         \<lparr>row_folder = ''POS1'', row_id = JStr ''11410001'',
          row_filename = ''A_11410001_NOR.txt'', row_curso = ''4t ESO'',
          row_consigna = Scalar (RStr ''Describe X''), row_nota = JInt 9,
          row_feedback = JStr ''better''\<rparr>]"
  using reconcile_first_match
    [OF sample_entries_dicts sample_metadata_first sample_metadata_id nothing_before_first,
      of "''POS1''" "[]"]
  by (simp add: sample_metadata_def sample_entry_def resent_entry_def entry_field_def dict_get_def)


section \<open>The prompt table\<close>

lemma cells_at:
  "distinct cols \<Longrightarrow> length row = length cols \<Longrightarrow> i < length cols \<Longrightarrow>
   map snd (filter (\<lambda>cv. fst cv = cols ! i) (zip cols row)) = [row ! i]"
proof (induction cols arbitrary: row i)
  case Nil
  then show ?case by simp
next
  case (Cons c cols)
  then obtain v vs where row: "row = v # vs" by (cases row) auto
  show ?case
  proof (cases i)
    case 0
    have "filter (\<lambda>cv. fst cv = c) (zip cols vs) = []"
      using Cons.prems(1) by (auto simp: filter_empty_conv dest: set_zip_leftD)
    then show ?thesis using 0 row by simp
  next
    case (Suc j)
    then have "c \<noteq> cols ! j" using Cons.prems by auto
    moreover have "map snd (filter (\<lambda>cv. fst cv = cols ! j) (zip cols vs)) = [vs ! j]"
      using Cons.IH [of vs j] Cons.prems Suc row by simp
    ultimately show ?thesis using Suc row by simp
  qed
qed

lemma row_cells_at:
  "distinct (df_columns df) \<Longrightarrow> length row = length (df_columns df) \<Longrightarrow>
   i < length (df_columns df) \<Longrightarrow> row_cells df row (df_columns df ! i) = [row ! i]"
  by (simp add: row_cells_def cells_at)

lemma rename_absent:
  "old \<notin> set (df_columns df) \<Longrightarrow> rename_column old new df = df"
proof -
  assume "old \<notin> set (df_columns df)"
  then have "map (\<lambda>c. if c = old then new else c) (df_columns df) = df_columns df"
    by (intro map_idI) auto
  then show ?thesis by (simp add: rename_column_def)
qed

lemma load_renames:
  "load_consignas_csv (Some df)
     = rename_column ''TEXTpost2'' ''Consigna'' (rename_column ''File ID'' ''FileID'' df)"
  by (simp add: load_consignas_csv_def Let_def rename_absent)

lemma load_columns:
  "df_columns (load_consignas_csv (Some df)) = map canonical_name (df_columns df)"
  by (simp add: load_renames rename_column_def canonical_name_def)

lemma load_rows: "df_rows (load_consignas_csv (Some df)) = df_rows df"
  by (simp add: load_renames rename_column_def)

lemma filter_zip_map:
  "filter (\<lambda>cv. fst cv = name) (zip (map f cols) row)
     = map (\<lambda>cv. (f (fst cv), snd cv)) (filter (\<lambda>cv. f (fst cv) = name) (zip cols row))"
  by (induction cols arbitrary: row) (auto split: list.splits simp: zip_Cons1)

lemma loaded_cells:
  "row_cells (load_consignas_csv (Some df)) row name
     = map snd (filter (\<lambda>cv. canonical_name (fst cv) = name) (zip (df_columns df) row))"
  by (simp add: row_cells_def load_columns filter_zip_map comp_def)

lemma loaded_id_cells:
  "row_cells (load_consignas_csv (Some df)) row ''ID'' = row_cells df row ''ID''"
proof -
  have "canonical_name c = ''ID'' \<longleftrightarrow> c = ''ID''" for c
    by (simp add: canonical_name_def)
  then show ?thesis unfolding loaded_cells by (simp add: row_cells_def)
qed

lemma loaded_prompt_cells:
  assumes "pc = ''TEXTpost2'' \<or> pc = ''Consigna''"
      and "\<not> (''TEXTpost2'' \<in> set (df_columns df) \<and> ''Consigna'' \<in> set (df_columns df))"
      and "pc \<in> set (df_columns df)"
  shows "row_cells (load_consignas_csv (Some df)) row ''Consigna'' = row_cells df row pc"
proof -
  have "canonical_name (fst cv) = ''Consigna'' \<longleftrightarrow> fst cv = pc"
    if "cv \<in> set (zip (df_columns df) row)" for cv
  proof -
    have "fst cv \<in> set (df_columns df)" using that by (metis prod.collapse set_zip_leftD)
    then show ?thesis using assms by (auto simp: canonical_name_def)
  qed
  then have "filter (\<lambda>cv. canonical_name (fst cv) = ''Consigna'') (zip (df_columns df) row)
           = filter (\<lambda>cv. fst cv = pc) (zip (df_columns df) row)"
    by (intro filter_cong) auto
  then show ?thesis unfolding loaded_cells by (simp add: row_cells_def)
qed

lemma first_of_filter:
  "(case filter P xs of [] \<Rightarrow> a | x # rest \<Rightarrow> f x) = (case find P xs of None \<Rightarrow> a | Some x \<Rightarrow> f x)"
  by (induction xs) auto

lemma load_without_id:
  "''ID'' \<notin> set (df_columns df) \<Longrightarrow> ''ID'' \<notin> set (df_columns (load_consignas_csv (Some df)))"
  by (auto simp: load_columns canonical_name_def split: if_splits)

text \<open>
  C3, as the code has it. Loading renames \<open>File ID\<close> to \<open>FileID\<close> and \<open>TEXTpost2\<close> to
  \<open>Consigna\<close> and leaves the rows as they are. The lookup by student identifier does not
  use the renamed identifier column: it compares the text of the column \<open>ID\<close>. A table
  without a column \<open>ID\<close> makes the lookup raise \<open>KeyError\<close>. For a table that has an
  \<open>ID\<close> column and one prompt column, named \<open>TEXTpost2\<close> or \<open>Consigna\<close>, the lookup
  returns the prompt cell, as it is, of the first row whose \<open>ID\<close> cell reads as the
  identifier, and \<open>N/A\<close> when there is no such row.
\<close>

theorem lookup_after_load:
  "df_columns (load_consignas_csv (Some df)) = map canonical_name (df_columns df)
   \<and> df_rows (load_consignas_csv (Some df)) = df_rows df
   \<and> (''ID'' \<notin> set (df_columns df) \<longrightarrow>
        lookup_consigna (load_consignas_csv (Some df)) text_id = Inl KeyError)
   \<and> (distinct (df_columns df) \<and> rectangular df
        \<and> id_ix < length (df_columns df) \<and> df_columns df ! id_ix = ''ID''
        \<and> prompt_ix < length (df_columns df)
        \<and> (df_columns df ! prompt_ix = ''TEXTpost2'' \<or> df_columns df ! prompt_ix = ''Consigna'')
        \<and> \<not> (''TEXTpost2'' \<in> set (df_columns df) \<and> ''Consigna'' \<in> set (df_columns df))
        \<longrightarrow>
        lookup_consigna (load_consignas_csv (Some df)) text_id =
          (case find (\<lambda>row. astype_str (row ! id_ix) = text_id) (df_rows df) of
             None \<Rightarrow> Inr (Scalar (RStr ''N/A''))
           | Some row \<Rightarrow> Inr (Scalar (row ! prompt_ix))))"
proof -
  let ?L = "load_consignas_csv (Some df)"
  let ?pc = "df_columns df ! prompt_ix"
  have ke: "lookup_consigna ?L text_id = Inl KeyError" if "''ID'' \<notin> set (df_columns df)"
    using load_without_id [OF that] by (simp add: lookup_consigna_def)
  have main: "lookup_consigna ?L text_id =
          (case find (\<lambda>row. astype_str (row ! id_ix) = text_id) (df_rows df) of
             None \<Rightarrow> Inr (Scalar (RStr ''N/A''))
           | Some row \<Rightarrow> Inr (Scalar (row ! prompt_ix)))"
    if d: "distinct (df_columns df)" and r: "rectangular df"
      and i1: "id_ix < length (df_columns df)" and i2: "df_columns df ! id_ix = ''ID''"
      and p1: "prompt_ix < length (df_columns df)"
      and p2: "?pc = ''TEXTpost2'' \<or> ?pc = ''Consigna''"
      and p3: "\<not> (''TEXTpost2'' \<in> set (df_columns df) \<and> ''Consigna'' \<in> set (df_columns df))"
  proof -
    have len: "length row = length (df_columns df)" if "row \<in> set (df_rows df)" for row
      using r that by (simp add: rectangular_def list_all_iff)
    have idc: "row_cells ?L row ''ID'' = [row ! id_ix]" if "row \<in> set (df_rows df)" for row
      using row_cells_at [OF d len [OF that] i1] i2 by (simp add: loaded_id_cells)
    have pcin: "?pc \<in> set (df_columns df)" using p1 by simp
    have prc: "row_cells ?L row ''Consigna'' = [row ! prompt_ix]"
      if "row \<in> set (df_rows df)" for row
      using row_cells_at [OF d len [OF that] p1] loaded_prompt_cells [OF p2 p3 pcin, of row]
      by simp
    have idL: "''ID'' \<in> set (df_columns ?L)"
      using i1 i2 by (auto simp: load_columns canonical_name_def image_iff in_set_conv_nth)
    have f: "filter (\<lambda>row. map astype_str (row_cells ?L row ''ID'') = [text_id]) (df_rows df)
             = filter (\<lambda>row. astype_str (row ! id_ix) = text_id) (df_rows df)"
      by (intro filter_cong) (auto simp: idc)
    have "lookup_consigna ?L text_id =
            (case filter (\<lambda>row. astype_str (row ! id_ix) = text_id) (df_rows df) of
               [] \<Rightarrow> Inr (Scalar (RStr ''N/A''))
             | row # rest \<Rightarrow> Inr (Scalar (row ! prompt_ix)))"
    proof (cases "filter (\<lambda>row. astype_str (row ! id_ix) = text_id) (df_rows df)")
      case Nil
      then show ?thesis using idL f by (simp add: lookup_consigna_def load_rows)
    next
      case (Cons row rest)
      then have "row \<in> set (filter (\<lambda>row. astype_str (row ! id_ix) = text_id) (df_rows df))"
        by simp
      then have "row \<in> set (df_rows df)" by simp
      then show ?thesis using Cons idL f prc by (simp add: lookup_consigna_def load_rows)
    qed
    then show ?thesis by (simp add: first_of_filter)
  qed
  show ?thesis using ke main by (simp add: load_columns load_rows)
qed

lemma sample_table_shape:
  "distinct (df_columns sample_table) \<and> rectangular sample_table
   \<and> 0 < length (df_columns sample_table) \<and> df_columns sample_table ! 0 = ''ID''
   \<and> 2 < length (df_columns sample_table)
   \<and> (df_columns sample_table ! 2 = ''TEXTpost2'' \<or> df_columns sample_table ! 2 = ''Consigna'')
   \<and> \<not> (''TEXTpost2'' \<in> set (df_columns sample_table)
         \<and> ''Consigna'' \<in> set (df_columns sample_table))"
  by code_simp

lemma sample_table_first_row:
  "(case find (\<lambda>row. astype_str (row ! 0) = ''11410001'') (df_rows sample_table) of
      None \<Rightarrow> Inr (Scalar (RStr ''N/A''))
    | Some row \<Rightarrow> Inr (Scalar (row ! 2)))
   = (Inr (Scalar (RStr ''Describe X'')) :: pyexn + cell)"
  by code_simp

lemma sample_table_no_row:
  "(case find (\<lambda>row. astype_str (row ! 0) = ''11510002'') (df_rows sample_table) of
      None \<Rightarrow> Inr (Scalar (RStr ''N/A''))
    | Some row \<Rightarrow> Inr (Scalar (row ! 2)))
   = (Inr (Scalar (RStr ''N/A'')) :: pyexn + cell)"
  by code_simp

lemma sample_table_canonical:
  "map canonical_name (df_columns sample_table) = [''ID'', ''FileID'', ''Consigna'']"
  by code_simp

lemma sample_table_without_id_columns: "''ID'' \<notin> set (df_columns sample_table_without_id)"
  by code_simp

theorem lookup_after_load_witness:
  "lookup_consigna (load_consignas_csv (Some sample_table)) ''11410001''
     = Inr (Scalar (RStr ''Describe X''))
   \<and> lookup_consigna (load_consignas_csv (Some sample_table)) ''11510002''
     = Inr (Scalar (RStr ''N/A''))
   \<and> df_columns (load_consignas_csv (Some sample_table)) = [''ID'', ''FileID'', ''Consigna'']
   \<and> lookup_consigna (load_consignas_csv (Some sample_table_without_id)) ''11410001''
     = Inl KeyError"
proof -
  note a = lookup_after_load [of sample_table "''11410001''" 0 2]
  note b = lookup_after_load [of sample_table "''11510002''" 0 2]
  note c = lookup_after_load [of sample_table_without_id "''11410001''" 0 0]
  have 1: "lookup_consigna (load_consignas_csv (Some sample_table)) ''11410001''
             = Inr (Scalar (RStr ''Describe X''))"
    using mp [OF a [THEN conjunct2, THEN conjunct2, THEN conjunct2] sample_table_shape]
    by (simp only: sample_table_first_row)
  have 2: "lookup_consigna (load_consignas_csv (Some sample_table)) ''11510002''
             = Inr (Scalar (RStr ''N/A''))"
    using mp [OF b [THEN conjunct2, THEN conjunct2, THEN conjunct2] sample_table_shape]
    by (simp only: sample_table_no_row)
  have 3: "df_columns (load_consignas_csv (Some sample_table)) = [''ID'', ''FileID'', ''Consigna'']"
    using a [THEN conjunct1] by (simp only: sample_table_canonical)
  have 4: "lookup_consigna (load_consignas_csv (Some sample_table_without_id)) ''11410001''
             = Inl KeyError"
    by (rule mp [OF c [THEN conjunct2, THEN conjunct2, THEN conjunct1]
          sample_table_without_id_columns])
  show ?thesis by (intro conjI 1 2 3 4)
qed

text \<open>
  The claim fails for a table whose identifier column is \<open>File ID\<close> and which has no
  column \<open>ID\<close>: after loading, the lookup raises \<open>KeyError\<close>.
\<close>

theorem lookup_without_id_column_counterexample:
  "df_columns sample_table_without_id = [''File ID'', ''TEXTpost2'']
   \<and> df_rows sample_table_without_id = [ [RStr ''11410001'', RStr ''Describe X''] ]
   \<and> df_columns (load_consignas_csv (Some sample_table_without_id)) = [''FileID'', ''Consigna'']
   \<and> lookup_consigna (load_consignas_csv (Some sample_table_without_id)) ''11410001''
       = Inl KeyError"
  by code_simp


section \<open>The identifier in a file name\<close>

text \<open>
  What \<open>re.search\<close> finds for the pattern \<open>_(\d+)_NOR\.txt$\<close>, and where the items and the
  metadata of a batch come from.
\<close>

lemma not_digit_underscore: "\<not> is_digit CHR ''_''"
  by (simp add: is_digit_def)

lemma match_here_Some:
  "match_here s = Some d \<Longrightarrow>
     d \<noteq> [] \<and> list_all is_digit d
     \<and> (s = ''_'' @ d @ ''_NOR.txt'' \<or> s = ''_'' @ d @ ''_NOR.txt\<newline>'')"
proof (cases s)
  case Nil
  assume "match_here s = Some d"
  then show ?thesis using Nil by (simp add: match_here_def)
next
  case (Cons c r)
  assume m: "match_here s = Some d"
  have c: "c = CHR ''_''" and d: "d = takeWhile is_digit r" and ne: "d \<noteq> []"
    and tail: "dropWhile is_digit r = ''_NOR.txt'' \<or> dropWhile is_digit r = ''_NOR.txt\<newline>''"
    using m Cons by (auto simp: match_here_def Let_def split: if_splits)
  have "r = d @ dropWhile is_digit r" using d by simp
  moreover have "list_all is_digit d"
    using d by (auto simp: list_all_iff dest: set_takeWhileD)
  ultimately show ?thesis using Cons c ne tail by auto
qed

lemma match_here_form:
  assumes "d \<noteq> []" "list_all is_digit d"
    and "tail = ''_NOR.txt'' \<or> tail = ''_NOR.txt\<newline>''"
  shows "match_here (''_'' @ d @ tail) = Some d"
proof -
  have all: "\<And>x. x \<in> set d \<Longrightarrow> is_digit x" using assms(2) by (simp add: list_all_iff)
  have t0: "takeWhile is_digit tail = []" "dropWhile is_digit tail = tail"
    using assms(3) by (auto simp: is_digit_def)
  have "takeWhile is_digit (d @ tail) = d" "dropWhile is_digit (d @ tail) = tail"
    using all t0 by (simp_all add: takeWhile_append2 dropWhile_append2)
  then show ?thesis using assms(1,3) by (auto simp: match_here_def)
qed

lemma match_here_inside:
  assumes "d \<noteq> []" and "tail = ''_NOR.txt'' \<or> tail = ''_NOR.txt\<newline>''"
  shows "match_here (c # p @ ''_'' @ d @ tail) = None"
proof (cases "match_here (c # p @ ''_'' @ d @ tail)")
  case None
  then show ?thesis .
next
  case (Some d')
  then have short: "length (dropWhile is_digit (p @ ''_'' @ d @ tail)) \<le> 9"
    by (auto simp: match_here_def Let_def split: if_splits)
  have "dropWhile is_digit (p @ CHR ''_'' # (d @ tail)) = dropWhile is_digit p @ CHR ''_'' # (d @ tail)"
    using not_digit_underscore by (simp add: dropWhile_append3)
  then have "length (dropWhile is_digit (p @ ''_'' @ d @ tail)) \<ge> 1 + length d + length tail"
    by simp
  moreover have "8 \<le> length tail" using assms(2) by auto
  moreover have "1 \<le> length d" using assms(1) by (cases d) simp_all
  ultimately show ?thesis using short by simp
qed

lemma re_search_form:
  assumes "d \<noteq> []" "list_all is_digit d"
    and "tail = ''_NOR.txt'' \<or> tail = ''_NOR.txt\<newline>''"
  shows "re_search (p @ ''_'' @ d @ tail) = Some d"
proof (induction p)
  case Nil
  then show ?case using match_here_form [OF assms] by simp
next
  case (Cons c p)
  then show ?case using match_here_inside [OF assms(1,3), of c p] by simp
qed

lemma re_search_Some:
  "re_search f = Some d \<Longrightarrow> \<exists>q s. f = q @ s \<and> match_here s = Some d"
proof (induction f)
  case Nil
  then show ?case by simp
next
  case (Cons c cs)
  show ?case
  proof (cases "match_here (c # cs)")
    case None
    then obtain q s where "cs = q @ s" "match_here s = Some d"
      using Cons by auto
    then have "c # cs = (c # q) @ s \<and> match_here s = Some d" by simp
    then show ?thesis by blast
  next
    case (Some d')
    then have "c # cs = [] @ (c # cs) \<and> match_here (c # cs) = Some d"
      using Cons.prems by simp
    then show ?thesis by blast
  qed
qed

lemma prepare_batch_sources:
  "prepare_batch df files items0 meta0 = Inr (items, meta) \<Longrightarrow>
   \<exists>items1 meta1. items = items0 @ items1 \<and> meta = meta0 @ meta1
     \<and> map id_alumno items1 = map meta_id meta1
     \<and> (\<forall>m \<in> set meta1. \<exists>file \<in> set files. meta_filename m = fst file
            \<and> extract_id_from_filename (fst file) = Some (meta_id m))"
proof (induction files arbitrary: items0 meta0)
  case Nil
  then show ?case by simp
next
  case (Cons entry entries)
  show ?case
  proof (cases "extract_id_from_filename (fst entry)")
    case None
    then show ?thesis using Cons by fastforce
  next
    case (Some text_id)
    show ?thesis
    proof (cases "read_text_file (snd entry) = []")
      case True
      then show ?thesis using Some Cons by fastforce
    next
      case False
      then obtain prompt where lk: "lookup_consigna df text_id = Inr prompt"
        using Cons.prems Some by (auto simp: Let_def split: sum.splits)
      let ?it = "\<lparr>id_alumno = text_id, curso = extract_curso_from_id text_id,
                   consigna = prompt, respuesta = read_text_file (snd entry)\<rparr>"
      let ?m = "\<lparr>meta_id = text_id, meta_filename = fst entry,
                  meta_consigna = prompt, meta_curso = extract_curso_from_id text_id\<rparr>"
      have "prepare_batch df entries (items0 @ [?it]) (meta0 @ [?m]) = Inr (items, meta)"
        using Cons.prems Some False lk by (simp add: Let_def)
      from Cons.IH [OF this] obtain items1 meta1 where
        i: "items = (items0 @ [?it]) @ items1" and m: "meta = (meta0 @ [?m]) @ meta1"
        and ids: "map id_alumno items1 = map meta_id meta1"
        and src: "\<forall>m \<in> set meta1. \<exists>e \<in> set entries. meta_filename m = fst e
                    \<and> extract_id_from_filename (fst e) = Some (meta_id m)"
        by blast
      have "items = items0 @ (?it # items1)" "meta = meta0 @ (?m # meta1)"
        using i m by simp_all
      moreover have "map id_alumno (?it # items1) = map meta_id (?m # meta1)"
        using ids by simp
      moreover have "\<forall>m \<in> set (?m # meta1). \<exists>f \<in> set (entry # entries). meta_filename m = fst f
                    \<and> extract_id_from_filename (fst f) = Some (meta_id m)"
        using src Some by auto
      ultimately show ?thesis by blast
    qed
  qed
qed


lemma prepare_batch_skips:
  "prepare_batch df (filter (\<lambda>f. extract_id_from_filename (fst f) \<noteq> None) files) items0 meta0
     = prepare_batch df files items0 meta0"
  by (induction files arbitrary: items0 meta0)
     (auto simp: Let_def split: option.splits sum.splits)


section \<open>The batches a folder run posts\<close>

text \<open>
  \<open>fst (process_folder \<dots>)\<close> is the list of the batches handed to \<open>requests.post\<close>, in
  order. Every one of them is built by \<open>prepare_batch\<close> from scanned files; and when no
  exception ends the run, every non-empty batch is among them.
\<close>

lemma row_cells_nonempty:
  "length row = length (df_columns df) \<Longrightarrow> name \<in> set (df_columns df) \<Longrightarrow>
   row_cells df row name \<noteq> []"
proof -
  assume l: "length row = length (df_columns df)" and n: "name \<in> set (df_columns df)"
  then obtain i where i: "i < length (df_columns df)" "df_columns df ! i = name"
    by (auto simp: in_set_conv_nth)
  then have "(name, row ! i) \<in> set (zip (df_columns df) row)"
    using l by (auto simp: set_zip)
  then have "(name, row ! i) \<in> set (filter (\<lambda>cv. fst cv = name) (zip (df_columns df) row))"
    by simp
  then have "filter (\<lambda>cv. fst cv = name) (zip (df_columns df) row) \<noteq> []"
    by (metis empty_iff empty_set)
  then show ?thesis by (simp add: row_cells_def)
qed







lemma run_batches_sources:
  "batch \<in> set (fst (run_batches loads api df folder_name batches k posted acc)) \<Longrightarrow>
   batch \<in> set posted
   \<or> (\<exists>b \<in> set batches. \<exists>meta. prepare_batch df b [] [] = Inr (batch, meta))"
proof (induction batches arbitrary: k posted acc)
  case Nil
  then show ?case by simp
next
  case (Cons b bs)
  show ?case
  proof (cases "prepare_batch df b [] []")
    case (Inl e)
    then show ?thesis using Cons.prems by simp
  next
    case (Inr r)
    obtain items meta where p: "prepare_batch df b [] [] = Inr (items, meta)"
      using Inr by (cases r) simp
    show ?thesis
    proof (cases "items = []")
      case True
      then have "batch \<in> set (fst (run_batches loads api df folder_name bs (Suc k) posted acc))"
        using Cons.prems p by simp
      then show ?thesis using Cons.IH by fastforce
    next
      case False
      let ?posted = "if encode_failure items = None then posted @ [items] else posted"
      have sub: "x \<in> set ?posted \<Longrightarrow> x \<in> set posted \<or> x = items" for x
        by (auto split: if_splits)
      show ?thesis
      proof (cases "evaluate_texts loads (api k items) items")
        case (Inl e)
        then have "batch \<in> set ?posted" using Cons.prems p False by (simp add: Let_def)
        then show ?thesis using sub p by auto
      next
        case ev: (Inr results)
        show ?thesis
        proof (cases "reconcile folder_name meta results acc")
          case (Inl e)
          then have "batch \<in> set ?posted" using Cons.prems p False ev by (simp add: Let_def)
          then show ?thesis using sub p by auto
        next
          case (Inr acc')
          then have "batch \<in> set (fst (run_batches loads api df folder_name bs (Suc k) ?posted acc'))"
            using Cons.prems p False ev by (simp add: Let_def)
          then have "batch \<in> set ?posted
                     \<or> (\<exists>b \<in> set bs. \<exists>meta. prepare_batch df b [] [] = Inr (batch, meta))"
            by (rule Cons.IH)
          then show ?thesis using sub p by auto
        qed
      qed
    qed
  qed
qed

lemma batch_slices_members:
  "batch_slices batch_size xs = Inr batches \<Longrightarrow> b \<in> set batches \<Longrightarrow> set b \<subseteq> set xs"
proof -
  assume bs: "batch_slices batch_size xs = Inr batches" and b: "b \<in> set batches"
  show ?thesis
  proof (cases "0 < batch_size")
    case True
    then have "batches = slices_from 0 (nat batch_size) xs"
      using bs by (simp add: batch_slices_def split: if_splits)
    then have "concat batches = xs"
      using slices_concat [of "nat batch_size" 0 xs] True by simp
    then show ?thesis using b by auto
  next
    case False
    then have "batches = []" using bs by (simp add: batch_slices_def split: if_splits)
    then show ?thesis using b by simp
  qed
qed

lemma process_folder_posted:
  "\<not> df_empty (load_consignas_csv csv) \<Longrightarrow> get_nor_files folder \<noteq> [] \<Longrightarrow>
   batch_slices batch_size (get_nor_files folder) = Inr batches \<Longrightarrow>
   fst (process_folder loads api nota_statistics csv folder folder_name batch_size)
     = fst (run_batches loads api (load_consignas_csv csv) folder_name batches 0 [] [])"
  by (simp add: process_folder_def Let_def split: prod.splits sum.splits)

lemma process_folder_sources:
  assumes "batch \<in> set (fst (process_folder loads api nota_statistics csv folder folder_name
                              batch_size))"
  shows "\<exists>b meta. set b \<subseteq> set (get_nor_files folder)
           \<and> prepare_batch (load_consignas_csv csv) b [] [] = Inr (batch, meta)"
proof -
  let ?df = "load_consignas_csv csv"
  have ne: "\<not> df_empty ?df" "get_nor_files folder \<noteq> []"
    using assms by (auto simp: process_folder_def Let_def split: if_splits)
  obtain batches where bs: "batch_slices batch_size (get_nor_files folder) = Inr batches"
    using assms ne by (cases "batch_slices batch_size (get_nor_files folder)")
      (auto simp: process_folder_def Let_def)
  have "batch \<in> set (fst (run_batches loads api ?df folder_name batches 0 [] []))"
    using assms process_folder_posted [OF ne bs] by simp
  then obtain b meta where "b \<in> set batches" "prepare_batch ?df b [] [] = Inr (batch, meta)"
    using run_batches_sources by fastforce
  then show ?thesis using batch_slices_members [OF bs] by blast
qed


section \<open>The scenario of the specification\<close>

text \<open>
  The folder \<open>POS1\<close> with two student files and a third file without an identifier, a
  prompt for the first student only, and a service that returns both results in one
  \<open>batch_complete\<close> frame followed by \<open>complete\<close>: one batch of two items is posted and
  two rows come back, with the grade levels of the 4th and 5th year, the second with the
  prompt \<open>N/A\<close>.
\<close>

lemma end_to_end_scenario:
  "process_folder loads_table sample_api numeric_statistics (Some sample_table) sample_folder
     ''POS1'' 10 =
     ([ [\<lparr>id_alumno = ''11410001'', curso = ''4t ESO'', consigna = Scalar (RStr ''Describe X''),
           respuesta = ''Hello''\<rparr>,
         \<lparr>id_alumno = ''11510002'', curso = ''5'' @ [CHR 0xE8] @ '' ESO'',
           consigna = Scalar (RStr ''N/A''), respuesta = ''World''\<rparr>] ],
      Inr [\<lparr>row_folder = ''POS1'', row_id = JStr ''11410001'',
           row_filename = ''POS1_11410001_NOR.txt'', row_curso = ''4t ESO'',
           row_consigna = Scalar (RStr ''Describe X''), row_nota = JInt 7, row_feedback = JStr ''ok''\<rparr>,
          \<lparr>row_folder = ''POS1'', row_id = JStr ''11510002'',
           row_filename = ''POS1_11510002_NOR.txt'',
           row_curso = ''5'' @ [CHR 0xE8] @ '' ESO'',
           row_consigna = Scalar (RStr ''N/A''), row_nota = JInt 5, row_feedback = JStr ''short''\<rparr>])"
  by code_simp

lemma sample_folder_scan:
  "get_nor_files sample_folder =
     [(''POS1_11410001_NOR.txt'', Some ''Hello''), (''POS1_11510002_NOR.txt'', Some ''World''),
      (''draft_NOR.txt'', Some ''Draft'')]"
  by code_simp

lemma sample_folder_batch:
  "prepare_batch (load_consignas_csv (Some sample_table)) (get_nor_files sample_folder) [] []
   = Inr ([\<lparr>id_alumno = ''11410001'', curso = ''4t ESO'', consigna = Scalar (RStr ''Describe X''), respuesta = ''Hello''\<rparr>,
           \<lparr>id_alumno = ''11510002'', curso = ''5'' @ [CHR 0xE8] @ '' ESO'', consigna = Scalar (RStr ''N/A''), respuesta = ''World''\<rparr>],
          [\<lparr>meta_id = ''11410001'', meta_filename = ''POS1_11410001_NOR.txt'', meta_consigna = Scalar (RStr ''Describe X''), meta_curso = ''4t ESO''\<rparr>,
           \<lparr>meta_id = ''11510002'', meta_filename = ''POS1_11510002_NOR.txt'', meta_consigna = Scalar (RStr ''N/A''), meta_curso = ''5'' @ [CHR 0xE8] @ '' ESO''\<rparr>])"
  by code_simp


section \<open>Identifier extraction\<close>

text \<open>
  C9, with \<open>.txt\<close> for the extension, the only one that a scanned file has. A name
  \<open>p_d_NOR.txt\<close>, with \<open>d\<close> a non-empty group of digits, gives exactly \<open>d\<close>, whatever
  the prefix \<open>p\<close>. A scanned file whose name is not of this form gives no identifier. And
  such a file never becomes a batch item: a batch is the same when the files without
  identifier are removed beforehand; the items and the metadata of a batch come, one for
  one, from files whose names give their identifier; and so does every item of a batch
  that \<open>process_folder\<close> submits.
\<close>

theorem extract_id_exact:
  "(d \<noteq> [] \<and> list_all is_digit d \<longrightarrow>
      extract_id_from_filename (p @ ''_'' @ d @ ''_NOR.txt'') = Some d)
   \<and> (e \<in> set (get_nor_files folder)
        \<and> (\<forall>q i. i \<noteq> [] \<and> list_all is_digit i \<longrightarrow> fst e \<noteq> q @ ''_'' @ i @ ''_NOR.txt'')
        \<longrightarrow> extract_id_from_filename (fst e) = None)
   \<and> prepare_batch df (filter (\<lambda>f. extract_id_from_filename (fst f) \<noteq> None) files) [] []
       = prepare_batch df files [] []
   \<and> (prepare_batch df files [] [] = Inr (items, meta) \<longrightarrow>
        map id_alumno items = map meta_id meta
        \<and> (\<forall>m \<in> set meta. \<exists>f \<in> set files. meta_filename m = fst f
               \<and> extract_id_from_filename (fst f) = Some (meta_id m)))
   \<and> (batch \<in> set (fst (process_folder loads api nota_statistics csv folder folder_name
                            batch_size))
        \<and> item \<in> set batch \<longrightarrow>
        (\<exists>f \<in> set (get_nor_files folder).
            extract_id_from_filename (fst f) = Some (id_alumno item)))"
proof -
  have a: "extract_id_from_filename (p @ ''_'' @ d @ ''_NOR.txt'') = Some d"
    if "d \<noteq> []" "list_all is_digit d"
    using re_search_form [OF that, of "''_NOR.txt''" p] by (simp add: extract_id_from_filename_def)
  have b: "extract_id_from_filename (fst e) = None"
    if sc: "e \<in> set (get_nor_files folder)"
      and nf: "\<forall>q i. i \<noteq> [] \<and> list_all is_digit i \<longrightarrow> fst e \<noteq> q @ ''_'' @ i @ ''_NOR.txt''"
  proof (cases "extract_id_from_filename (fst e)")
    case None
    then show ?thesis .
  next
    case (Some i)
    obtain q s where f: "fst e = q @ s" and m: "match_here s = Some i"
      using re_search_Some [of "fst e" i] Some by (auto simp: extract_id_from_filename_def)
    have i: "i \<noteq> []" "list_all is_digit i"
      and s: "s = ''_'' @ i @ ''_NOR.txt'' \<or> s = ''_'' @ i @ ''_NOR.txt\<newline>''"
      using match_here_Some [OF m] by simp_all
    have "endswith (fst e) ''_NOR.txt''" using sc by (auto simp: get_nor_files_def)
    then have "last (fst e) = CHR ''t''" by (auto simp: endswith_def suffix_def)
    then have "fst e \<noteq> q @ ''_'' @ i @ ''_NOR.txt\<newline>''" by auto
    then have "fst e = q @ ''_'' @ i @ ''_NOR.txt''" using f s by auto
    then show ?thesis using nf i by blast
  qed
  have c: "map id_alumno items = map meta_id meta
        \<and> (\<forall>m \<in> set meta. \<exists>f \<in> set files. meta_filename m = fst f
               \<and> extract_id_from_filename (fst f) = Some (meta_id m))"
    if "prepare_batch df files [] [] = Inr (items, meta)"
    using prepare_batch_sources [OF that] by simp
  have d: "\<exists>f \<in> set (get_nor_files folder).
             extract_id_from_filename (fst f) = Some (id_alumno item)"
    if bt: "batch \<in> set (fst (process_folder loads api nota_statistics csv folder folder_name
                                batch_size))"
      and it: "item \<in> set batch"
  proof -
    obtain b meta' where sub: "set b \<subseteq> set (get_nor_files folder)"
      and pb: "prepare_batch (load_consignas_csv csv) b [] [] = Inr (batch, meta')"
      using process_folder_sources [OF bt] by blast
    have ids: "map id_alumno batch = map meta_id meta'"
      and src: "\<forall>m \<in> set meta'. \<exists>f \<in> set b. meta_filename m = fst f
                  \<and> extract_id_from_filename (fst f) = Some (meta_id m)"
      using prepare_batch_sources [OF pb] by simp_all
    have "id_alumno item \<in> set (map meta_id meta')" using it ids by (metis image_eqI set_map)
    then obtain m where m: "m \<in> set meta'" and mi: "meta_id m = id_alumno item" by auto
    obtain f where f: "f \<in> set b" and ex: "extract_id_from_filename (fst f) = Some (meta_id m)"
      using src m by blast
    have "f \<in> set (get_nor_files folder)" using f sub by blast
    then show ?thesis using ex mi by (intro bexI [of _ f]) simp_all
  qed
  have s: "prepare_batch df (filter (\<lambda>f. extract_id_from_filename (fst f) \<noteq> None) files) [] []
             = prepare_batch df files [] []"
    by (rule prepare_batch_skips)
  show ?thesis using a b s c d by blast
qed

lemma draft_name_scanned: "(''draft_NOR.txt'', Some ''Draft'') \<in> set (get_nor_files sample_folder)"
  by (simp add: sample_folder_scan)

lemma draft_name_form:
  "\<forall>q i. i \<noteq> [] \<and> list_all is_digit i \<longrightarrow>
     fst (''draft_NOR.txt'', Some ''Draft'') \<noteq> q @ ''_'' @ i @ ''_NOR.txt''"
proof (intro allI impI notI)
  fix q i :: string
  assume i: "i \<noteq> [] \<and> list_all is_digit i"
    and eq: "fst (''draft_NOR.txt'', Some ''Draft'') = q @ ''_'' @ i @ ''_NOR.txt''"
  have "''draft'' @ ''_NOR.txt'' = (q @ ''_'' @ i) @ ''_NOR.txt''" using eq by simp
  then have dr: "q @ ''_'' @ i = ''draft''" by (simp only: append_same_eq)
  have "last (q @ ''_'' @ i) = last i" using i by simp
  then have "last i = last ''draft''" using dr by metis
  then have "last i = CHR ''t''" by simp
  moreover have "is_digit (last i)" using i by (simp add: list_all_iff)
  ultimately have "is_digit CHR ''t''" by simp
  then show False by (simp add: is_digit_def)
qed

theorem extract_id_exact_witness:
  "extract_id_from_filename (''POS1'' @ ''_'' @ ''11410001'' @ ''_NOR.txt'') = Some ''11410001''
   \<and> extract_id_from_filename ''draft_NOR.txt'' = None
   \<and> list_all (\<lambda>m. extract_id_from_filename (meta_filename m) = Some (meta_id m))
        [\<lparr>meta_id = ''11410001'', meta_filename = ''POS1_11410001_NOR.txt'',
          meta_consigna = Scalar (RStr ''Describe X''), meta_curso = ''4t ESO''\<rparr>,
         \<lparr>meta_id = ''11510002'', meta_filename = ''POS1_11510002_NOR.txt'',
          meta_consigna = Scalar (RStr ''N/A''), meta_curso = ''5'' @ [CHR 0xE8] @ '' ESO''\<rparr>]
   \<and> list_ex (\<lambda>f. extract_id_from_filename (fst f) = Some ''11510002'')
        (get_nor_files sample_folder)"
proof -
  have d: "''11410001'' \<noteq> [] \<and> list_all is_digit ''11410001''" by (simp add: is_digit_def)
  let ?item1 = "\<lparr>id_alumno = ''11410001'', curso = ''4t ESO'', consigna = Scalar (RStr ''Describe X''), respuesta = ''Hello''\<rparr>"
  let ?item2 = "\<lparr>id_alumno = ''11510002'', curso = ''5'' @ [CHR 0xE8] @ '' ESO'', consigna = Scalar (RStr ''N/A''), respuesta = ''World''\<rparr>"
  let ?meta = "[\<lparr>meta_id = ''11410001'', meta_filename = ''POS1_11410001_NOR.txt'', meta_consigna = Scalar (RStr ''Describe X''), meta_curso = ''4t ESO''\<rparr>,
           \<lparr>meta_id = ''11510002'', meta_filename = ''POS1_11510002_NOR.txt'', meta_consigna = Scalar (RStr ''N/A''), meta_curso = ''5'' @ [CHR 0xE8] @ '' ESO''\<rparr>]"
  note t = extract_id_exact [where d = "''11410001''" and p = "''POS1''"
      and e = "(''draft_NOR.txt'', Some ''Draft'')" and folder = sample_folder
      and df = "load_consignas_csv (Some sample_table)" and files = "get_nor_files sample_folder"
      and items = "[?item1, ?item2]" and meta = ?meta and batch = "[?item1, ?item2]"
      and loads = loads_table and api = sample_api and nota_statistics = numeric_statistics
      and csv = "Some sample_table" and folder_name = "''POS1''" and batch_size = 10
      and item = ?item2]
  have 1: "extract_id_from_filename (''POS1'' @ ''_'' @ ''11410001'' @ ''_NOR.txt'') = Some ''11410001''"
    using t d by blast
  have "extract_id_from_filename (fst (''draft_NOR.txt'', Some ''Draft'')) = None"
    using t draft_name_scanned draft_name_form by blast
  then have 2: "extract_id_from_filename ''draft_NOR.txt'' = None" by simp
  have 3: "\<forall>m \<in> set ?meta. \<exists>f \<in> set (get_nor_files sample_folder). meta_filename m = fst f
               \<and> extract_id_from_filename (fst f) = Some (meta_id m)"
    using t sample_folder_batch by blast
  have 4: "list_all (\<lambda>m. extract_id_from_filename (meta_filename m) = Some (meta_id m)) ?meta"
    using 3 by (auto simp: list_all_iff)
  have "[?item1, ?item2] \<in> set (fst (process_folder loads_table sample_api numeric_statistics
            (Some sample_table) sample_folder ''POS1'' 10)) \<and> ?item2 \<in> set [?item1, ?item2]"
    by (simp add: end_to_end_scenario)
  then have "\<exists>f \<in> set (get_nor_files sample_folder).
               extract_id_from_filename (fst f) = Some (id_alumno ?item2)"
    using t by blast
  then have 5: "list_ex (\<lambda>f. extract_id_from_filename (fst f) = Some ''11510002'')
                  (get_nor_files sample_folder)"
    by (simp add: list_ex_iff)
  show ?thesis using 1 2 4 5 by blast
qed


section \<open>Missing prompts\<close>










end
